theory Spec2Isabelle
  imports Main
begin

section \<open>Data model\<close>

text \<open>
  Device buffers are named by handles. A memory resource
  (\<^verbatim>\<open>rmm::mr::device_memory_resource*\<close>) and a stream (\<^verbatim>\<open>cudaStream_t\<close>) are
  opaque handles as well; \<open>0\<close> is the default stream.
\<close>

type_synonym addr = nat
type_synonym mr = nat
type_synonym stream = nat

text \<open>
  \<^verbatim>\<open>CUDF_EXPECTS\<close> throws \<^verbatim>\<open>cudf::logic_error\<close> with the given message (doc comment of
  \<^verbatim>\<open>detail::cross_join\<close>). The two other errors are the allocation and the device/runtime
  failures a callee may raise.
\<close>

datatype error = logic_error string | bad_alloc | cuda_error string

text \<open>
  A column: element type tag, row count, whether it carries a validity bitmap, and the
  handle of its device buffer. The cells themselves live in device memory; a cell of type
  \<open>'a\<close> stands for a value together with its validity. A column view has the same shape
  and differs in ownership only.
\<close>

record 't column =
  type_tag :: 't
  row_count :: nat
  nullable :: bool
  buffer :: addr

text \<open>
  \<^verbatim>\<open>cudf::table_view\<close>: the ordered columns and the row count. The same record stands for
  an owning \<^verbatim>\<open>cudf::table\<close>. Row counts are \<^verbatim>\<open>size_type\<close> in the source; \<^verbatim>\<open>cross_join\<close>
  itself only compares them with \<open>0\<close> and hands them on, and the spec states the primitives'
  row counts as products, so they are natural numbers here.
\<close>

record 't table_view =
  columns :: "'t column list"
  num_rows :: nat

type_synonym 't table = "'t table_view"

definition num_columns :: "'t table_view \<Rightarrow> nat" where
  "num_columns t = length (columns t)"

text \<open>\<^verbatim>\<open>table::release()\<close>: hands out the columns of an owning table.\<close>

definition release :: "'t table \<Rightarrow> 't column list" where
  "release t = columns t"

text \<open>
  The calls that \<^verbatim>\<open>detail::cross_join\<close> makes, each with the arguments written at the
  call site: \<^verbatim>\<open>numeric_scalar<size_type>{v}\<close>, \<^verbatim>\<open>detail::repeat(t, n, mr, stream)\<close>,
  \<^verbatim>\<open>cudf::tile(t, n, mr)\<close>, \<^verbatim>\<open>empty_like(t)\<close> and \<^verbatim>\<open>std::make_unique<table>(cols)\<close>.
\<close>

datatype 't call =
    MakeScalar nat
  | Repeat "'t table_view" nat mr stream
  | Tile "'t table_view" nat mr
  | EmptyLike "'t table_view"
  | MakeTable "'t column list"

text \<open>The stream and the memory resource a call site passes, if it passes one.\<close>

fun call_stream :: "'t call \<Rightarrow> stream option" where
  "call_stream (Repeat t n m s) = Some s"
| "call_stream (MakeScalar v) = None"
| "call_stream (Tile t n m) = None"
| "call_stream (EmptyLike t) = None"
| "call_stream (MakeTable cs) = None"

fun call_mr :: "'t call \<Rightarrow> mr option" where
  "call_mr (Repeat t n m s) = Some m"
| "call_mr (Tile t n m) = Some m"
| "call_mr (MakeScalar v) = None"
| "call_mr (EmptyLike t) = None"
| "call_mr (MakeTable cs) = None"

text \<open>
  The device: the live buffers, the next unused handle, and the log of the calls issued so
  far.
\<close>

record ('t, 'a) device =
  mem :: "addr \<Rightarrow> 'a list option"
  brk :: addr
  log :: "'t call list"

text \<open>
  A fault schedule decides, from the log up to and including the current call, whether
  that call fails and with which error.
\<close>

type_synonym 't faults = "'t call list \<Rightarrow> error option"

definition no_faults :: "'t faults" where
  "no_faults l = None"

section \<open>Device memory\<close>

definition alloc :: "'a list \<Rightarrow> ('t, 'a) device \<Rightarrow> addr \<times> ('t, 'a) device" where
  "alloc xs d = (brk d, d\<lparr>mem := (mem d)(brk d \<mapsto> xs), brk := Suc (brk d)\<rparr>)"

fun alloc_buffers :: "'a list list \<Rightarrow> ('t, 'a) device \<Rightarrow> addr list \<times> ('t, 'a) device" where
  "alloc_buffers [] d = ([], d)"
| "alloc_buffers (xs # bufs) d =
     (case alloc xs d of (a, d1) \<Rightarrow>
        (case alloc_buffers bufs d1 of (as, d2) \<Rightarrow> (a # as, d2)))"

text \<open>Destroying columns releases their buffers.\<close>

definition free :: "'t column list \<Rightarrow> ('t, 'a) device \<Rightarrow> ('t, 'a) device" where
  "free cs d = d\<lparr>mem := (\<lambda>a. if a \<in> buffer ` set cs then None else mem d a)\<rparr>"

text \<open>Reading the buffers of a list of column views; \<open>None\<close> when one of them is not live.\<close>

definition read_buffers :: "('t, 'a) device \<Rightarrow> 't column list \<Rightarrow> 'a list list option" where
  "read_buffers d cs = those (map (\<lambda>c. mem d (buffer c)) cs)"

section \<open>The primitives\<close>

definition repeat_rows :: "nat \<Rightarrow> 'a list \<Rightarrow> 'a list" where
  "repeat_rows count xs = concat (map (replicate count) xs)"

definition tile_rows :: "nat \<Rightarrow> 'a list \<Rightarrow> 'a list" where
  "tile_rows count xs = concat (replicate count xs)"

text \<open>
  What the three table-producing primitives share: the call is logged; it may fail
  (section 7: allocation failure, device/runtime failure), leaving nothing allocated;
  reading an input buffer that is not live is a device failure; otherwise one new buffer is
  allocated per output column and the new table owns them.
\<close>

definition materialize ::
  "'t faults \<Rightarrow> 't call \<Rightarrow> 't column list \<Rightarrow> nat \<Rightarrow> 'a list list option \<Rightarrow> ('t, 'a) device
     \<Rightarrow> (error + 't table) \<times> ('t, 'a) device" where
  "materialize \<phi> c cols rows contents d =
     (let d1 = d\<lparr>log := log d @ [c]\<rparr> in
      case \<phi> (log d1) of
        Some e \<Rightarrow> (Inl e, d1)
      | None \<Rightarrow>
         (case contents of
            None \<Rightarrow> (Inl (cuda_error ''illegal address''), d1)
          | Some bufs \<Rightarrow>
             (case alloc_buffers bufs d1 of (as, d2) \<Rightarrow>
                (Inr \<lparr>columns = map2 (\<lambda>c a. c\<lparr>buffer := a\<rparr>) cols as, num_rows = rows\<rparr>, d2))))"

text \<open>
  Modelled from the spec: the constructor of \<^verbatim>\<open>numeric_scalar<size_type>\<close> is not in the
  sources. It wraps the value; as a constructor it may fail.
\<close>

definition numeric_scalar ::
  "'t faults \<Rightarrow> nat \<Rightarrow> ('t, 'a) device \<Rightarrow> (error + nat) \<times> ('t, 'a) device" where
  "numeric_scalar \<phi> v d =
     (let d1 = d\<lparr>log := log d @ [MakeScalar v]\<rparr> in
      case \<phi> (log d1) of
        Some e \<Rightarrow> (Inl e, d1)
      | None \<Rightarrow> (Inr v, d1))"

text \<open>
  Modelled from the spec: \<^verbatim>\<open>detail::repeat\<close> is not in the sources. Row-Repetition
  (section 4.2): a new table with \<open>rows * factor\<close> rows where output row \<open>k\<close> is input row
  \<open>k div factor\<close>, column types and null masks preserved.
\<close>

definition detail_repeat ::
  "'t faults \<Rightarrow> 't table_view \<Rightarrow> nat \<Rightarrow> mr \<Rightarrow> stream \<Rightarrow> ('t, 'a) device
     \<Rightarrow> (error + 't table) \<times> ('t, 'a) device" where
  "detail_repeat \<phi> input count m s d =
     materialize \<phi> (Repeat input count m s)
       (map (\<lambda>c. c\<lparr>row_count := row_count c * count\<rparr>) (columns input))
       (num_rows input * count)
       (map_option (map (repeat_rows count)) (read_buffers d (columns input))) d"

text \<open>
  Modelled from the spec: \<^verbatim>\<open>cudf::tile\<close> is not in the sources. Row-Tiling (section 4.3): a
  new table with \<open>rows * count\<close> rows, \<open>count\<close> full copies of the input's rows in their
  original order, column types and null masks preserved.
\<close>

definition tile ::
  "'t faults \<Rightarrow> 't table_view \<Rightarrow> nat \<Rightarrow> mr \<Rightarrow> ('t, 'a) device
     \<Rightarrow> (error + 't table) \<times> ('t, 'a) device" where
  "tile \<phi> input count m d =
     materialize \<phi> (Tile input count m)
       (map (\<lambda>c. c\<lparr>row_count := row_count c * count\<rparr>) (columns input))
       (num_rows input * count)
       (map_option (map (tile_rows count)) (read_buffers d (columns input))) d"

text \<open>
  Modelled from the spec: \<^verbatim>\<open>empty_like\<close> is not in the sources. Empty-Like (section 4.4): a
  zero-row table with one column per input column, each with the input column's element
  type and null-mask capability, and a zero-length buffer. Only the input's schema is
  read.
\<close>

definition empty_like ::
  "'t faults \<Rightarrow> 't table_view \<Rightarrow> ('t, 'a) device \<Rightarrow> (error + 't table) \<times> ('t, 'a) device" where
  "empty_like \<phi> input d =
     materialize \<phi> (EmptyLike input)
       (map (\<lambda>c. c\<lparr>row_count := 0\<rparr>) (columns input))
       0
       (Some (map (\<lambda>c. []) (columns input))) d"

text \<open>
  Modelled from the spec: the constructor of \<^verbatim>\<open>cudf::table\<close> is not in the sources. A table
  is constructed from a sequence of columns, taking ownership (section 3); the stitching
  asserts nothing about the row counts (section 4.5). The row count is that of the columns.
  The columns were moved into the call, so they are destroyed when it fails.
\<close>

definition make_table ::
  "'t faults \<Rightarrow> 't column list \<Rightarrow> ('t, 'a) device \<Rightarrow> (error + 't table) \<times> ('t, 'a) device" where
  "make_table \<phi> cs d =
     (let d1 = d\<lparr>log := log d @ [MakeTable cs]\<rparr> in
      case \<phi> (log d1) of
        Some e \<Rightarrow> (Inl e, free cs d1)
      | None \<Rightarrow>
         (Inr \<lparr>columns = cs,
               num_rows = (case cs of [] \<Rightarrow> 0 | c # _ \<Rightarrow> row_count c)\<rparr>, d1))"

section \<open>Cross join\<close>

text \<open>
  \<^verbatim>\<open>cudf::detail::cross_join\<close>, statement by statement. The fault schedule and the device
  are the environment of the call; \<open>left\<close>, \<open>right\<close>, \<open>m\<close> and \<open>s\<close> are its four parameters.
  An exception of a callee leaves the function at once; the owning locals that are live at
  that point (\<^verbatim>\<open>empty_left_columns\<close>, \<^verbatim>\<open>left_repeated\<close>) are destroyed on the way out.
\<close>

definition detail_cross_join ::
  "'t faults \<Rightarrow> 't table_view \<Rightarrow> 't table_view \<Rightarrow> mr \<Rightarrow> stream \<Rightarrow> ('t, 'a) device
     \<Rightarrow> (error + 't table) \<times> ('t, 'a) device" where
  "detail_cross_join \<phi> left right m s d =
     (if 0 = num_columns left then (Inl (logic_error ''Left table is empty''), d)
      else if 0 = num_columns right then (Inl (logic_error ''Right table is empty''), d)
      else if 0 = num_rows left \<or> 0 = num_rows right then
        (case empty_like \<phi> left d of
           (Inl e, d1) \<Rightarrow> (Inl e, d1)
         | (Inr el, d1) \<Rightarrow>
            (let empty_left_columns = release el in
             case empty_like \<phi> right d1 of
               (Inl e, d2) \<Rightarrow> (Inl e, free empty_left_columns d2)
             | (Inr er, d2) \<Rightarrow>
                (let empty_right_columns = release er in
                 make_table \<phi> (empty_left_columns @ empty_right_columns) d2)))
      else
        (case numeric_scalar \<phi> (num_rows right) d of
           (Inl e, d1) \<Rightarrow> (Inl e, d1)
         | (Inr num_repeats, d1) \<Rightarrow>
            (case detail_repeat \<phi> left num_repeats m s d1 of
               (Inl e, d2) \<Rightarrow> (Inl e, d2)
             | (Inr left_repeated, d2) \<Rightarrow>
                (case tile \<phi> right (num_rows left) m d2 of
                   (Inl e, d3) \<Rightarrow> (Inl e, free (release left_repeated) d3)
                 | (Inr right_tiled, d3) \<Rightarrow>
                    (let left_repeated_columns = release left_repeated;
                         right_tiled_columns = release right_tiled in
                     make_table \<phi> (left_repeated_columns @ right_tiled_columns) d3)))))"

text \<open>
  \<^verbatim>\<open>cudf::cross_join\<close>: the public entry point, which passes stream \<open>0\<close>. The profiling range
  \<^verbatim>\<open>CUDF_FUNC_RANGE()\<close> has no effect on the result.
\<close>

definition cross_join ::
  "'t faults \<Rightarrow> 't table_view \<Rightarrow> 't table_view \<Rightarrow> mr \<Rightarrow> ('t, 'a) device
     \<Rightarrow> (error + 't table) \<times> ('t, 'a) device" where
  "cross_join \<phi> left right m d = detail_cross_join \<phi> left right m 0 d"

section \<open>Observations\<close>

text \<open>A column view is valid on a device when its buffer is live and as long as its row count.\<close>

definition valid_column :: "('t, 'a) device \<Rightarrow> 't column \<Rightarrow> bool" where
  "valid_column d c =
     (buffer c < brk d \<and>
      (case mem d (buffer c) of None \<Rightarrow> False | Some xs \<Rightarrow> length xs = row_count c))"

text \<open>The table invariant (section 3): all columns share the table's row count.\<close>

definition valid_table :: "('t, 'a) device \<Rightarrow> 't table_view \<Rightarrow> bool" where
  "valid_table d t = (\<forall>c \<in> set (columns t). valid_column d c \<and> row_count c = num_rows t)"

text \<open>Row \<open>i\<close> of a table: the \<open>i\<close>-th cell of each column, \<open>None\<close> for a buffer that is not live.\<close>

definition row :: "('t, 'a) device \<Rightarrow> 't table_view \<Rightarrow> nat \<Rightarrow> 'a option list" where
  "row d t i = map (\<lambda>c. map_option (\<lambda>xs. xs ! i) (mem d (buffer c))) (columns t)"

text \<open>The calls issued between two device states.\<close>

definition issued :: "('t, 'a) device \<Rightarrow> ('t, 'a) device \<Rightarrow> 't call list" where
  "issued d d' = drop (length (log d)) (log d')"

text \<open>
  The errors that a fault schedule raises along a sequence of calls issued after the
  log \<open>l\<close>.
\<close>

fun raised :: "'t faults \<Rightarrow> 't call list \<Rightarrow> 't call list \<Rightarrow> error list" where
  "raised \<phi> l [] = []"
| "raised \<phi> l (c # cs) =
     (case \<phi> (l @ [c]) of
        None \<Rightarrow> raised \<phi> (l @ [c]) cs
      | Some e \<Rightarrow> e # raised \<phi> (l @ [c]) cs)"

section \<open>An example\<close>

text \<open>
  The example of section 8: a left table of one column with the rows \<open>1, 2\<close> and a right
  table of one column with the rows \<open>10, 20, 30\<close>; a table of a single row and a table
  without rows. The device holds just these four buffers. The fault schedule of the example
  lets the third call fail.
\<close>

definition ex_left :: "nat table_view" where
  "ex_left = \<lparr>columns = [\<lparr>type_tag = 3, row_count = 2, nullable = False, buffer = 0\<rparr>],
              num_rows = 2\<rparr>"

definition ex_right :: "nat table_view" where
  "ex_right = \<lparr>columns = [\<lparr>type_tag = 4, row_count = 3, nullable = True, buffer = 1\<rparr>],
               num_rows = 3\<rparr>"

definition ex_single :: "nat table_view" where
  "ex_single = \<lparr>columns = [\<lparr>type_tag = 5, row_count = 1, nullable = False, buffer = 2\<rparr>],
                num_rows = 1\<rparr>"

definition ex_empty :: "nat table_view" where
  "ex_empty = \<lparr>columns = [\<lparr>type_tag = 3, row_count = 0, nullable = False, buffer = 3\<rparr>],
               num_rows = 0\<rparr>"

definition ex_device :: "(nat, int) device" where
  "ex_device = \<lparr>mem = [0 \<mapsto> [1, 2], 1 \<mapsto> [10, 20, 30], 2 \<mapsto> [7], 3 \<mapsto> []],
                brk = 4, log = []\<rparr>"

definition ex_faults :: "nat faults" where
  "ex_faults l = (if length l = 3 then Some bad_alloc else None)"

section \<open>Memory and primitives\<close>

lemma alloc_buffers_eq:
  "alloc_buffers bufs d =
     ([brk d ..< brk d + length bufs],
      d\<lparr>mem := (\<lambda>a. if brk d \<le> a \<and> a < brk d + length bufs
                      then Some (bufs ! (a - brk d)) else mem d a),
        brk := brk d + length bufs\<rparr>)"
proof (induction bufs arbitrary: d)
  case Nil
  have "(\<lambda>a. if brk d \<le> a \<and> a < brk d then Some ([] ! (a - brk d)) else mem d a) = mem d"
    by (rule ext) auto
  then show ?case by simp
next
  case (Cons xs bufs)
  define d1 where "d1 = d\<lparr>mem := (mem d)(brk d \<mapsto> xs), brk := Suc (brk d)\<rparr>"
  have l: "[brk d ..< brk d + length (xs # bufs)] = brk d # [brk d1 ..< brk d1 + length bufs]"
    by (subst upt_conv_Cons) (simp_all add: d1_def del: upt_Suc)
  have m: "(\<lambda>a. if brk d1 \<le> a \<and> a < brk d1 + length bufs
                then Some (bufs ! (a - brk d1)) else mem d1 a) =
           (\<lambda>a. if brk d \<le> a \<and> a < brk d + length (xs # bufs)
                then Some ((xs # bufs) ! (a - brk d)) else mem d a)"
    by (rule ext) (auto simp: d1_def nth_Cons' Suc_diff_le)
  have a: "alloc xs d = (brk d, d1)"
    by (simp add: alloc_def d1_def)
  have "alloc_buffers (xs # bufs) d =
          (brk d # [brk d1 ..< brk d1 + length bufs],
           d1\<lparr>mem := (\<lambda>a. if brk d1 \<le> a \<and> a < brk d1 + length bufs
                           then Some (bufs ! (a - brk d1)) else mem d1 a),
              brk := brk d1 + length bufs\<rparr>)"
    by (simp only: alloc_buffers.simps a Cons.IH[of d1] prod.case)
  also have "\<dots> = ([brk d ..< brk d + length (xs # bufs)],
             d\<lparr>mem := (\<lambda>a. if brk d \<le> a \<and> a < brk d + length (xs # bufs)
                            then Some ((xs # bufs) ! (a - brk d)) else mem d a),
               brk := brk d + length (xs # bufs)\<rparr>)"
    unfolding l m by (simp add: d1_def)
  finally show ?case .
qed

lemma those_map_Some:
  "(\<And>x. x \<in> set xs \<Longrightarrow> f x = Some (g x)) \<Longrightarrow> those (map f xs) = Some (map g xs)"
  by (induction xs) auto

lemma those_Some_nth:
  "those ys = Some zs \<Longrightarrow> length zs = length ys \<and> (\<forall>i<length ys. ys ! i = Some (zs ! i))"
proof (induction ys arbitrary: zs)
  case Nil
  then show ?case by simp
next
  case (Cons y ys)
  then show ?case
    by (auto split: option.splits simp: nth_Cons')
qed

lemma length_repeat_rows: "length (repeat_rows n xs) = length xs * n"
  by (induction xs) (auto simp: repeat_rows_def)

lemma nth_repeat_rows: "i < length xs * n \<Longrightarrow> repeat_rows n xs ! i = xs ! (i div n)"
proof (induction xs arbitrary: i)
  case Nil
  then show ?case by simp
next
  case (Cons x xs)
  have n: "0 < n" using Cons.prems by (cases n) auto
  show ?case
  proof (cases "i < n")
    case True
    then show ?thesis by (simp add: repeat_rows_def nth_append)
  next
    case False
    then have "i - n < length xs * n" using Cons.prems by simp
    from Cons.IH[OF this] False n show ?thesis
      by (simp add: repeat_rows_def nth_append div_if)
  qed
qed

lemma length_tile_rows: "length (tile_rows m xs) = m * length xs"
  by (induction m) (auto simp: tile_rows_def)

lemma nth_tile_rows: "i < m * length xs \<Longrightarrow> tile_rows m xs ! i = xs ! (i mod length xs)"
proof (induction m arbitrary: i)
  case 0
  then show ?case by simp
next
  case (Suc m)
  show ?case
  proof (cases "i < length xs")
    case True
    then show ?thesis by (simp add: tile_rows_def nth_append)
  next
    case False
    then have "i - length xs < m * length xs" using Suc.prems by simp
    from Suc.IH[OF this] False show ?thesis
      by (simp add: tile_rows_def nth_append le_mod_geq)
  qed
qed

lemma materialize_ok:
  assumes "\<phi> (log d @ [c]) = None"
  shows "\<exists>d'. materialize \<phi> c cols rows (Some bufs) d =
            (Inr \<lparr>columns = map2 (\<lambda>c a. c\<lparr>buffer := a\<rparr>) cols [brk d ..< brk d + length bufs],
                  num_rows = rows\<rparr>, d') \<and>
          brk d' = brk d + length bufs \<and> log d' = log d @ [c] \<and>
          (\<forall>a. mem d' a = (if brk d \<le> a \<and> a < brk d + length bufs
                             then Some (bufs ! (a - brk d)) else mem d a))"
  using assms by (simp add: materialize_def alloc_buffers_eq Let_def)

lemma materialize_frame:
  assumes "materialize \<phi> c cols rows contents d = (r, d')"
  shows "log d' = log d @ [c]" and "brk d \<le> brk d'"
    and "\<And>a. a < brk d \<Longrightarrow> mem d' a = mem d a"
    and "\<And>e. r = Inl e \<Longrightarrow> mem d' = mem d \<and> brk d' = brk d"
    and "\<And>t x. r = Inr t \<Longrightarrow> x \<in> set (columns t) \<Longrightarrow> brk d \<le> buffer x \<and> buffer x < brk d'"
  using assms
  by (auto simp: materialize_def alloc_buffers_eq Let_def split: option.splits dest!: set_zip_rightD)

lemma numeric_scalar_frame:
  assumes "numeric_scalar \<phi> v d = (r, d')"
  shows "log d' = log d @ [MakeScalar v]" and "brk d' = brk d" and "mem d' = mem d"
  using assms by (auto simp: numeric_scalar_def Let_def split: option.splits)

lemma make_table_frame:
  assumes "make_table \<phi> cs d = (r, d')"
  shows "log d' = log d @ [MakeTable cs]" and "brk d' = brk d"
    and "\<And>a. a \<notin> buffer ` set cs \<Longrightarrow> mem d' a = mem d a"
    and "\<And>t. r = Inr t \<Longrightarrow> columns t = cs \<and> mem d' = mem d"
  using assms by (auto simp: make_table_def free_def Let_def split: option.splits)


lemma materialize_ok_nth:
  assumes "\<phi> (log d @ [c]) = None" and "length bufs = length cols"
  shows "\<exists>t d'. materialize \<phi> c cols rows (Some bufs) d = (Inr t, d') \<and>
          length (columns t) = length cols \<and> num_rows t = rows \<and>
          brk d' = brk d + length cols \<and> log d' = log d @ [c] \<and>
          (\<forall>a<brk d. mem d' a = mem d a) \<and>
          (\<forall>j<length cols. columns t ! j = (cols ! j)\<lparr>buffer := brk d + j\<rparr> \<and>
                             mem d' (brk d + j) = Some (bufs ! j))"
proof -
  from materialize_ok[where \<phi>=\<phi> and d=d and c=c and cols=cols and rows=rows and bufs=bufs, OF assms(1)] obtain d' where
    r: "materialize \<phi> c cols rows (Some bufs) d =
          (Inr \<lparr>columns = map2 (\<lambda>c a. c\<lparr>buffer := a\<rparr>) cols [brk d ..< brk d + length bufs],
                num_rows = rows\<rparr>, d')"
    and b: "brk d' = brk d + length bufs" and l: "log d' = log d @ [c]"
    and m: "\<And>a. mem d' a = (if brk d \<le> a \<and> a < brk d + length bufs
                              then Some (bufs ! (a - brk d)) else mem d a)"
    by blast
  show ?thesis
    using r b l assms(2) by (intro exI[of _ "\<lparr>columns = map2 (\<lambda>c a. c\<lparr>buffer := a\<rparr>) cols [brk d ..< brk d + length bufs], num_rows = rows\<rparr>"] exI[of _ d']) (simp add: m)
qed

lemma valid_read:
  assumes "valid_table d t"
  shows "\<exists>bufs. read_buffers d (columns t) = Some bufs \<and> length bufs = length (columns t) \<and>
           (\<forall>j<length (columns t). mem d (buffer (columns t ! j)) = Some (bufs ! j) \<and>
                                    length (bufs ! j) = num_rows t)"
proof -
  let ?g = "\<lambda>c. case mem d (buffer c) of None \<Rightarrow> [] | Some xs \<Rightarrow> xs"
  have s: "\<And>c. c \<in> set (columns t) \<Longrightarrow> mem d (buffer c) = Some (?g c) \<and> length (?g c) = num_rows t"
    using assms by (auto simp: valid_table_def valid_column_def split: option.splits)
  then have "read_buffers d (columns t) = Some (map ?g (columns t))"
    unfolding read_buffers_def by (intro those_map_Some) simp
  with s show ?thesis by (intro exI[of _ "map ?g (columns t)"]) simp
qed

lemma valid_table_frame:
  assumes "valid_table d t" and "brk d \<le> brk d'" and "\<And>a. a < brk d \<Longrightarrow> mem d' a = mem d a"
  shows "valid_table d' t"
  using assms by (auto simp: valid_table_def valid_column_def)

lemma row_frame:
  assumes "valid_table d t" and "\<And>a. a < brk d \<Longrightarrow> mem d' a = mem d a"
  shows "row d' t i = row d t i"
  using assms by (auto simp: row_def valid_table_def valid_column_def)

lemma detail_repeat_ok:
  assumes "valid_table d input" and "\<phi> (log d @ [Repeat input count m s]) = None"
  shows "\<exists>t d'. detail_repeat \<phi> input count m s d = (Inr t, d') \<and>
          length (columns t) = length (columns input) \<and> num_rows t = num_rows input * count \<and>
          brk d' = brk d + length (columns input) \<and>
          log d' = log d @ [Repeat input count m s] \<and>
          (\<forall>a<brk d. mem d' a = mem d a) \<and>
          (\<forall>j<length (columns input).
             columns t ! j = (columns input ! j)\<lparr>row_count := num_rows input * count, buffer := brk d + j\<rparr> \<and>
             (\<exists>xs. mem d (buffer (columns input ! j)) = Some xs \<and> length xs = num_rows input \<and>
                   mem d' (brk d + j) = Some (repeat_rows count xs)))"
proof -
  from valid_read[OF assms(1)] obtain bufs where
    rb: "read_buffers d (columns input) = Some bufs" and lb: "length bufs = length (columns input)"
    and nb: "\<And>j. j < length (columns input) \<Longrightarrow>
               mem d (buffer (columns input ! j)) = Some (bufs ! j) \<and> length (bufs ! j) = num_rows input"
    by blast
  have rc: "\<And>j. j < length (columns input) \<Longrightarrow> row_count (columns input ! j) = num_rows input"
    using assms(1) by (simp add: valid_table_def)
  from materialize_ok_nth[where \<phi>=\<phi> and d=d and c="Repeat input count m s"
      and bufs="map (repeat_rows count) bufs"
      and cols="map (\<lambda>c. c\<lparr>row_count := row_count c * count\<rparr>) (columns input)"
      and rows="num_rows input * count", OF assms(2)]
  show ?thesis
    unfolding detail_repeat_def rb using lb nb rc by (auto simp: )
qed


lemma tile_ok:
  assumes "valid_table d input" and "\<phi> (log d @ [Tile input count m]) = None"
  shows "\<exists>t d'. tile \<phi> input count m d = (Inr t, d') \<and>
          length (columns t) = length (columns input) \<and> num_rows t = num_rows input * count \<and>
          brk d' = brk d + length (columns input) \<and>
          log d' = log d @ [Tile input count m] \<and>
          (\<forall>a<brk d. mem d' a = mem d a) \<and>
          (\<forall>j<length (columns input).
             columns t ! j = (columns input ! j)\<lparr>row_count := num_rows input * count, buffer := brk d + j\<rparr> \<and>
             (\<exists>xs. mem d (buffer (columns input ! j)) = Some xs \<and> length xs = num_rows input \<and>
                   mem d' (brk d + j) = Some (tile_rows count xs)))"
proof -
  from valid_read[OF assms(1)] obtain bufs where
    rb: "read_buffers d (columns input) = Some bufs" and lb: "length bufs = length (columns input)"
    and nb: "\<And>j. j < length (columns input) \<Longrightarrow>
               mem d (buffer (columns input ! j)) = Some (bufs ! j) \<and> length (bufs ! j) = num_rows input"
    by blast
  have rc: "\<And>j. j < length (columns input) \<Longrightarrow> row_count (columns input ! j) = num_rows input"
    using assms(1) by (simp add: valid_table_def)
  from materialize_ok_nth[where \<phi>=\<phi> and d=d and c="Tile input count m"
      and bufs="map (tile_rows count) bufs"
      and cols="map (\<lambda>c. c\<lparr>row_count := row_count c * count\<rparr>) (columns input)"
      and rows="num_rows input * count", OF assms(2)]
  show ?thesis
    unfolding tile_def rb using lb nb rc by auto
qed

lemma empty_like_ok:
  assumes "\<phi> (log d @ [EmptyLike input]) = None"
  shows "\<exists>t d'. empty_like \<phi> input d = (Inr t, d') \<and>
          length (columns t) = length (columns input) \<and> num_rows t = 0 \<and>
          brk d' = brk d + length (columns input) \<and>
          log d' = log d @ [EmptyLike input] \<and>
          (\<forall>a<brk d. mem d' a = mem d a) \<and>
          (\<forall>j<length (columns input).
             columns t ! j = (columns input ! j)\<lparr>row_count := 0, buffer := brk d + j\<rparr> \<and>
             mem d' (brk d + j) = Some [])"
  using materialize_ok_nth[where \<phi>=\<phi> and d=d and c="EmptyLike input"
      and bufs="map (\<lambda>c. []) (columns input)"
      and cols="map (\<lambda>c. c\<lparr>row_count := 0\<rparr>) (columns input)"
      and rows=0, OF assms]
  unfolding empty_like_def by auto

lemma cross_join_general:
  fixes L R :: "'t table_view" and d :: "('t, 'a) device"
  assumes vL: "valid_table d L" and vR: "valid_table d R"
    and cL: "columns L \<noteq> []" and cR: "columns R \<noteq> []"
    and rL: "0 < num_rows L" and rR: "0 < num_rows R"
  shows "\<exists>t d'. detail_cross_join no_faults L R m s d = (Inr t, d') \<and>
          length (columns t) = length (columns L) + length (columns R) \<and>
          num_rows t = num_rows L * num_rows R \<and>
          brk d' = brk d + length (columns L) + length (columns R) \<and>
          log d' = log d @ [MakeScalar (num_rows R), Repeat L (num_rows R) m s,
                            Tile R (num_rows L) m, MakeTable (columns t)] \<and>
          (\<forall>a<brk d. mem d' a = mem d a) \<and>
          (\<forall>j<length (columns L).
             columns t ! j = (columns L ! j)\<lparr>row_count := num_rows L * num_rows R, buffer := brk d + j\<rparr> \<and>
             (\<exists>xs. mem d (buffer (columns L ! j)) = Some xs \<and> length xs = num_rows L \<and>
                   mem d' (brk d + j) = Some (repeat_rows (num_rows R) xs))) \<and>
          (\<forall>j<length (columns R).
             columns t ! (length (columns L) + j) =
               (columns R ! j)\<lparr>row_count := num_rows R * num_rows L,
                               buffer := brk d + length (columns L) + j\<rparr> \<and>
             (\<exists>xs. mem d (buffer (columns R ! j)) = Some xs \<and> length xs = num_rows R \<and>
                   mem d' (brk d + length (columns L) + j) = Some (tile_rows (num_rows L) xs)))"
proof -
  let ?p = "length (columns L)" and ?q = "length (columns R)"
  let ?n = "num_rows R" and ?m = "num_rows L"
  define d1 where "d1 = d\<lparr>log := log d @ [MakeScalar ?n]\<rparr>"
  have s1: "numeric_scalar no_faults ?n d = (Inr ?n, d1)"
    by (simp add: numeric_scalar_def no_faults_def d1_def)
  have d1: "brk d1 = brk d" "mem d1 = mem d" "log d1 = log d @ [MakeScalar ?n]"
    by (simp_all add: d1_def)
  have vL1: "valid_table d1 L"
    using valid_table_frame[OF vL, of d1] by (simp add: d1)
  from detail_repeat_ok[where \<phi>=no_faults, OF vL1, of ?n m s] obtain T1 d2 where
    s2: "detail_repeat no_faults L ?n m s d1 = (Inr T1, d2)"
    and l2: "length (columns T1) = ?p" and b2: "brk d2 = brk d + ?p"
    and g2: "log d2 = log d @ [MakeScalar ?n, Repeat L ?n m s]"
    and f2: "\<And>a. a < brk d \<Longrightarrow> mem d2 a = mem d a"
    and c2: "\<And>j. j < ?p \<Longrightarrow>
               columns T1 ! j = (columns L ! j)\<lparr>row_count := ?m * ?n, buffer := brk d + j\<rparr> \<and>
               (\<exists>xs. mem d (buffer (columns L ! j)) = Some xs \<and> length xs = ?m \<and>
                     mem d2 (brk d + j) = Some (repeat_rows ?n xs))"
    by (auto simp: no_faults_def d1)
  have vR2: "valid_table d2 R"
    using valid_table_frame[OF vR, of d2] by (simp add: b2 f2)
  from tile_ok[where \<phi>=no_faults, OF vR2, of ?m m] obtain T2 d3 where
    s3: "tile no_faults R ?m m d2 = (Inr T2, d3)"
    and l3: "length (columns T2) = ?q" and b3: "brk d3 = brk d + ?p + ?q"
    and g3: "log d3 = log d @ [MakeScalar ?n, Repeat L ?n m s, Tile R ?m m]"
    and f3: "\<And>a. a < brk d2 \<Longrightarrow> mem d3 a = mem d2 a"
    and c3: "\<And>j. j < ?q \<Longrightarrow>
               columns T2 ! j = (columns R ! j)\<lparr>row_count := ?n * ?m, buffer := brk d2 + j\<rparr> \<and>
               (\<exists>xs. mem d2 (buffer (columns R ! j)) = Some xs \<and> length xs = ?n \<and>
                     mem d3 (brk d2 + j) = Some (tile_rows ?m xs))"
    by (auto simp: no_faults_def b2 g2)
  define T where "T = \<lparr>columns = columns T1 @ columns T2, num_rows = ?m * ?n\<rparr>"
  define d4 where "d4 = d3\<lparr>log := log d3 @ [MakeTable (columns T1 @ columns T2)]\<rparr>"
  have r1: "row_count (columns T1 ! 0) = ?m * ?n"
    using c2[of 0] cL by simp
  have ne: "columns T1 \<noteq> []" using l2 cL by auto
  have s4: "make_table no_faults (columns T1 @ columns T2) d3 = (Inr T, d4)"
    using r1 ne by (cases "columns T1") (simp_all add: make_table_def no_faults_def T_def d4_def)
  have res: "detail_cross_join no_faults L R m s d = (Inr T, d4)"
    using cL cR rL rR by (simp add: detail_cross_join_def num_columns_def s1 s2 s3 s4 release_def)
  have bR: "\<And>j. j < ?q \<Longrightarrow> buffer (columns R ! j) < brk d"
    using vR by (simp add: valid_table_def valid_column_def)
  have left: "\<And>j. j < ?p \<Longrightarrow>
               columns T ! j = (columns L ! j)\<lparr>row_count := ?m * ?n, buffer := brk d + j\<rparr> \<and>
               (\<exists>xs. mem d (buffer (columns L ! j)) = Some xs \<and> length xs = ?m \<and>
                     mem d4 (brk d + j) = Some (repeat_rows ?n xs))"
    using c2 by (simp add: T_def d4_def nth_append l2 f3 b2)
  have right: "\<And>j. j < ?q \<Longrightarrow>
               columns T ! (?p + j) = (columns R ! j)\<lparr>row_count := ?n * ?m, buffer := brk d + ?p + j\<rparr> \<and>
               (\<exists>xs. mem d (buffer (columns R ! j)) = Some xs \<and> length xs = ?n \<and>
                     mem d4 (brk d + ?p + j) = Some (tile_rows ?m xs))"
    using c3 bR by (simp add: T_def d4_def nth_append l2 b2 f2)
  have "length (columns T) = ?p + ?q" "num_rows T = ?m * ?n" "brk d4 = brk d + ?p + ?q"
    "log d4 = log d @ [MakeScalar ?n, Repeat L ?n m s, Tile R ?m m, MakeTable (columns T)]"
    "\<And>a. a < brk d \<Longrightarrow> mem d4 a = mem d a"
    by (simp_all add: T_def d4_def l2 l3 b3 g3 f3 f2 b2)
  with res left right show ?thesis by blast
qed


lemma cross_join_empty:
  fixes L R :: "'t table_view" and d :: "('t, 'a) device"
  assumes cL: "columns L \<noteq> []" and cR: "columns R \<noteq> []"
    and z: "num_rows L = 0 \<or> num_rows R = 0"
  shows "\<exists>t d'. detail_cross_join no_faults L R m s d = (Inr t, d') \<and>
          length (columns t) = length (columns L) + length (columns R) \<and>
          num_rows t = 0 \<and>
          brk d' = brk d + length (columns L) + length (columns R) \<and>
          log d' = log d @ [EmptyLike L, EmptyLike R, MakeTable (columns t)] \<and>
          (\<forall>a<brk d. mem d' a = mem d a) \<and>
          (\<forall>j<length (columns L).
             columns t ! j = (columns L ! j)\<lparr>row_count := 0, buffer := brk d + j\<rparr> \<and>
             mem d' (brk d + j) = Some []) \<and>
          (\<forall>j<length (columns R).
             columns t ! (length (columns L) + j) =
               (columns R ! j)\<lparr>row_count := 0, buffer := brk d + length (columns L) + j\<rparr> \<and>
             mem d' (brk d + length (columns L) + j) = Some [])"
proof -
  let ?p = "length (columns L)" and ?q = "length (columns R)"
  from empty_like_ok[where \<phi>=no_faults and d=d and input=L] obtain T1 d1 where
    s1: "empty_like no_faults L d = (Inr T1, d1)"
    and l1: "length (columns T1) = ?p" and b1: "brk d1 = brk d + ?p"
    and g1: "log d1 = log d @ [EmptyLike L]"
    and f1: "\<And>a. a < brk d \<Longrightarrow> mem d1 a = mem d a"
    and c1: "\<And>j. j < ?p \<Longrightarrow>
               columns T1 ! j = (columns L ! j)\<lparr>row_count := 0, buffer := brk d + j\<rparr> \<and>
               mem d1 (brk d + j) = Some []"
    by (auto simp: no_faults_def)
  from empty_like_ok[where \<phi>=no_faults and d=d1 and input=R] obtain T2 d2 where
    s2: "empty_like no_faults R d1 = (Inr T2, d2)"
    and l2: "length (columns T2) = ?q" and b2: "brk d2 = brk d + ?p + ?q"
    and g2: "log d2 = log d @ [EmptyLike L, EmptyLike R]"
    and f2: "\<And>a. a < brk d1 \<Longrightarrow> mem d2 a = mem d1 a"
    and c2: "\<And>j. j < ?q \<Longrightarrow>
               columns T2 ! j = (columns R ! j)\<lparr>row_count := 0, buffer := brk d1 + j\<rparr> \<and>
               mem d2 (brk d1 + j) = Some []"
    by (auto simp: no_faults_def b1 g1)
  define T where "T = \<lparr>columns = columns T1 @ columns T2, num_rows = 0\<rparr>"
  define d3 where "d3 = d2\<lparr>log := log d2 @ [MakeTable (columns T1 @ columns T2)]\<rparr>"
  have r1: "row_count (columns T1 ! 0) = 0"
    using c1[of 0] cL by simp
  have ne: "columns T1 \<noteq> []" using l1 cL by auto
  have s3: "make_table no_faults (columns T1 @ columns T2) d2 = (Inr T, d3)"
    using r1 ne by (cases "columns T1") (simp_all add: make_table_def no_faults_def T_def d3_def)
  have res: "detail_cross_join no_faults L R m s d = (Inr T, d3)"
    using cL cR z by (auto simp: detail_cross_join_def num_columns_def s1 s2 s3 release_def)
  have left: "\<And>j. j < ?p \<Longrightarrow>
               columns T ! j = (columns L ! j)\<lparr>row_count := 0, buffer := brk d + j\<rparr> \<and>
               mem d3 (brk d + j) = Some []"
    using c1 by (simp add: T_def d3_def nth_append l1 f2 b1)
  have right: "\<And>j. j < ?q \<Longrightarrow>
               columns T ! (?p + j) = (columns R ! j)\<lparr>row_count := 0, buffer := brk d + ?p + j\<rparr> \<and>
               mem d3 (brk d + ?p + j) = Some []"
    using c2 by (simp add: T_def d3_def nth_append l1 b1)
  have "length (columns T) = ?p + ?q" "num_rows T = 0" "brk d3 = brk d + ?p + ?q"
    "log d3 = log d @ [EmptyLike L, EmptyLike R, MakeTable (columns T)]"
    "\<And>a. a < brk d \<Longrightarrow> mem d3 a = mem d a"
    by (simp_all add: T_def d3_def l1 l2 b2 g2 f2 f1 b1)
  with res left right show ?thesis by blast
qed

text \<open>A table whose columns are described position by position is valid.\<close>

lemma valid_tableI:
  assumes "\<And>j. j < length (columns t) \<Longrightarrow>
             buffer (columns t ! j) < brk d \<and> row_count (columns t ! j) = num_rows t \<and>
             (\<exists>xs. mem d (buffer (columns t ! j)) = Some xs \<and> length xs = num_rows t)"
  shows "valid_table d t"
  unfolding valid_table_def valid_column_def
proof
  fix c assume "c \<in> set (columns t)"
  then obtain j where "j < length (columns t)" "c = columns t ! j"
    by (auto simp: in_set_conv_nth)
  with assms[of j] show "(buffer c < brk d \<and>
      (case mem d (buffer c) of None \<Rightarrow> False | Some xs \<Rightarrow> length xs = row_count c)) \<and>
      row_count c = num_rows t"
    by auto
qed

lemma cross_join_shape:
  fixes L R :: "'t table_view" and d :: "('t, 'a) device"
  assumes vL: "valid_table d L" and vR: "valid_table d R"
    and cL: "columns L \<noteq> []" and cR: "columns R \<noteq> []"
  shows "\<exists>t d'. detail_cross_join no_faults L R m s d = (Inr t, d') \<and>
          valid_table d' t \<and>
          num_rows t = num_rows L * num_rows R \<and>
          length (columns t) = length (columns L) + length (columns R) \<and>
          map type_tag (columns t) = map type_tag (columns L) @ map type_tag (columns R) \<and>
          brk d \<le> brk d' \<and> (\<forall>a<brk d. mem d' a = mem d a)"
proof (cases "num_rows L = 0 \<or> num_rows R = 0")
  case True
  from cross_join_empty[OF cL cR True, of m s d] obtain t d' where
    res: "detail_cross_join no_faults L R m s d = (Inr t, d')"
    and len: "length (columns t) = length (columns L) + length (columns R)"
    and nr: "num_rows t = 0"
    and b: "brk d' = brk d + length (columns L) + length (columns R)"
    and f: "\<And>a. a < brk d \<Longrightarrow> mem d' a = mem d a"
    and left: "\<And>j. j < length (columns L) \<Longrightarrow>
               columns t ! j = (columns L ! j)\<lparr>row_count := 0, buffer := brk d + j\<rparr> \<and>
               mem d' (brk d + j) = Some []"
    and right: "\<And>j. j < length (columns R) \<Longrightarrow>
               columns t ! (length (columns L) + j) =
                 (columns R ! j)\<lparr>row_count := 0, buffer := brk d + length (columns L) + j\<rparr> \<and>
               mem d' (brk d + length (columns L) + j) = Some []"
    by blast
  have col: "\<And>k. k < length (columns t) \<Longrightarrow>
       buffer (columns t ! k) = brk d + k \<and> row_count (columns t ! k) = 0 \<and>
       mem d' (brk d + k) = Some [] \<and>
       type_tag (columns t ! k) = type_tag ((columns L @ columns R) ! k)"
  proof -
    fix k assume k: "k < length (columns t)"
    show "buffer (columns t ! k) = brk d + k \<and> row_count (columns t ! k) = 0 \<and>
       mem d' (brk d + k) = Some [] \<and>
       type_tag (columns t ! k) = type_tag ((columns L @ columns R) ! k)"
    proof (cases "k < length (columns L)")
      case True
      with left[of k] show ?thesis by (simp add: nth_append)
    next
      case False
      with k len have "k - length (columns L) < length (columns R)" by simp
      from right[OF this] False show ?thesis by (simp add: nth_append)
    qed
  qed
  have v: "valid_table d' t"
    by (rule valid_tableI) (use col nr b len in auto)
  have ty: "map type_tag (columns t) = map type_tag (columns L) @ map type_tag (columns R)"
    using col len by (intro nth_equalityI) (simp_all flip: map_append)
  from res v nr len ty b f True show ?thesis by auto
next
  case False
  then have rL: "0 < num_rows L" and rR: "0 < num_rows R" by simp_all
  from cross_join_general[OF vL vR cL cR rL rR, of m s] obtain t d' where
    res: "detail_cross_join no_faults L R m s d = (Inr t, d')"
    and len: "length (columns t) = length (columns L) + length (columns R)"
    and nr: "num_rows t = num_rows L * num_rows R"
    and b: "brk d' = brk d + length (columns L) + length (columns R)"
    and f: "\<And>a. a < brk d \<Longrightarrow> mem d' a = mem d a"
    and left: "\<And>j. j < length (columns L) \<Longrightarrow>
             columns t ! j = (columns L ! j)\<lparr>row_count := num_rows L * num_rows R, buffer := brk d + j\<rparr> \<and>
             (\<exists>xs. mem d (buffer (columns L ! j)) = Some xs \<and> length xs = num_rows L \<and>
                   mem d' (brk d + j) = Some (repeat_rows (num_rows R) xs))"
    and right: "\<And>j. j < length (columns R) \<Longrightarrow>
             columns t ! (length (columns L) + j) =
               (columns R ! j)\<lparr>row_count := num_rows R * num_rows L,
                               buffer := brk d + length (columns L) + j\<rparr> \<and>
             (\<exists>xs. mem d (buffer (columns R ! j)) = Some xs \<and> length xs = num_rows R \<and>
                   mem d' (brk d + length (columns L) + j) = Some (tile_rows (num_rows L) xs))"
    by blast
  have col: "\<And>k. k < length (columns t) \<Longrightarrow>
       buffer (columns t ! k) = brk d + k \<and> row_count (columns t ! k) = num_rows L * num_rows R \<and>
       (\<exists>xs. mem d' (brk d + k) = Some xs \<and> length xs = num_rows L * num_rows R) \<and>
       type_tag (columns t ! k) = type_tag ((columns L @ columns R) ! k)"
  proof -
    fix k assume k: "k < length (columns t)"
    show "buffer (columns t ! k) = brk d + k \<and> row_count (columns t ! k) = num_rows L * num_rows R \<and>
       (\<exists>xs. mem d' (brk d + k) = Some xs \<and> length xs = num_rows L * num_rows R) \<and>
       type_tag (columns t ! k) = type_tag ((columns L @ columns R) ! k)"
    proof (cases "k < length (columns L)")
      case True
      with left[of k] show ?thesis by (auto simp: nth_append length_repeat_rows)
    next
      case False
      with k len have "k - length (columns L) < length (columns R)" by simp
      from right[OF this] False show ?thesis by (auto simp: nth_append length_tile_rows)
    qed
  qed
  have v: "valid_table d' t"
    by (rule valid_tableI) (use col nr b len in auto)
  have ty: "map type_tag (columns t) = map type_tag (columns L) @ map type_tag (columns R)"
    using col len by (intro nth_equalityI) (simp_all flip: map_append)
  from res v nr len ty b f show ?thesis by auto
qed


lemma cross_join_rows:
  fixes L R :: "'t table_view" and d :: "('t, 'a) device"
  assumes "valid_table d L" and "valid_table d R"
    and "columns L \<noteq> []" and "columns R \<noteq> []"
    and "0 < num_rows L" and "0 < num_rows R"
  shows "\<exists>t d'. detail_cross_join no_faults L R m s d = (Inr t, d') \<and>
          (\<forall>i < num_rows L * num_rows R.
             row d' t i = row d L (i div num_rows R) @ row d R (i mod num_rows R))"
proof -
  let ?p = "length (columns L)" and ?q = "length (columns R)"
  let ?n = "num_rows R" and ?m = "num_rows L"
  from cross_join_general[OF assms, of m s] obtain t d' where
    res: "detail_cross_join no_faults L R m s d = (Inr t, d')"
    and len: "length (columns t) = ?p + ?q"
    and left: "\<And>j. j < ?p \<Longrightarrow>
             columns t ! j = (columns L ! j)\<lparr>row_count := ?m * ?n, buffer := brk d + j\<rparr> \<and>
             (\<exists>xs. mem d (buffer (columns L ! j)) = Some xs \<and> length xs = ?m \<and>
                   mem d' (brk d + j) = Some (repeat_rows ?n xs))"
    and right: "\<And>j. j < ?q \<Longrightarrow>
             columns t ! (?p + j) = (columns R ! j)\<lparr>row_count := ?n * ?m, buffer := brk d + ?p + j\<rparr> \<and>
             (\<exists>xs. mem d (buffer (columns R ! j)) = Some xs \<and> length xs = ?n \<and>
                   mem d' (brk d + ?p + j) = Some (tile_rows ?m xs))"
    by blast
  have "row d' t i = row d L (i div ?n) @ row d R (i mod ?n)" if i: "i < ?m * ?n" for i
  proof (rule nth_equalityI)
    show "length (row d' t i) = length (row d L (i div ?n) @ row d R (i mod ?n))"
      by (simp add: row_def len)
  next
    fix k assume "k < length (row d' t i)"
    then have k: "k < ?p + ?q" by (simp add: row_def len)
    show "row d' t i ! k = (row d L (i div ?n) @ row d R (i mod ?n)) ! k"
    proof (cases "k < ?p")
      case True
      from left[OF True] obtain xs where
        c: "columns t ! k = (columns L ! k)\<lparr>row_count := ?m * ?n, buffer := brk d + k\<rparr>"
        and x: "mem d (buffer (columns L ! k)) = Some xs" "length xs = ?m"
          "mem d' (brk d + k) = Some (repeat_rows ?n xs)"
        by blast
      from i x have "repeat_rows ?n xs ! i = xs ! (i div ?n)"
        by (intro nth_repeat_rows) simp
      with True k c x show ?thesis
        by (simp add: row_def len nth_append)
    next
      case False
      then have j: "k - ?p < ?q" using k by simp
      from right[OF j] False obtain xs where
        c: "columns t ! k = (columns R ! (k - ?p))\<lparr>row_count := ?n * ?m, buffer := brk d + k\<rparr>"
        and x: "mem d (buffer (columns R ! (k - ?p))) = Some xs" "length xs = ?n"
          "mem d' (brk d + k) = Some (tile_rows ?m xs)"
        by auto
      from i x have "tile_rows ?m xs ! i = xs ! (i mod ?n)"
        using nth_tile_rows[of i ?m xs] by simp
      with False k j c x show ?thesis
        by (simp add: row_def len nth_append)
    qed
  qed
  with res show ?thesis by blast
qed

section \<open>Row order and shape of the product\<close>

text \<open>
  Claim C1. For tables \<open>L\<close> with \<open>m\<close> rows and \<open>R\<close> with \<open>n\<close> rows, both with at least one
  column and at least one row, the join succeeds and every row \<open>i < m * n\<close> of the result
  is row \<open>i div n\<close> of \<open>L\<close> followed by row \<open>i mod n\<close> of \<open>R\<close>: the right rows cycle fastest.
\<close>

theorem cross_join_row_order:
  fixes L R :: "'t table_view" and d :: "('t, 'a) device"
  assumes "valid_table d L" and "valid_table d R"
    and "columns L \<noteq> []" and "columns R \<noteq> []"
    and "0 < num_rows L" and "0 < num_rows R"
  shows "case detail_cross_join no_faults L R m s d of
           (Inl e, d') \<Rightarrow> False
         | (Inr t, d') \<Rightarrow>
             \<forall>i < num_rows L * num_rows R.
               row d' t i = row d L (i div num_rows R) @ row d R (i mod num_rows R)"
  using cross_join_rows[OF assms, of m s] by auto

theorem cross_join_row_order_witness:
  "valid_table ex_device ex_left \<and> valid_table ex_device ex_right \<and>
   columns ex_left \<noteq> [] \<and> columns ex_right \<noteq> [] \<and>
   0 < num_rows ex_left \<and> 0 < num_rows ex_right \<and>
   (case detail_cross_join no_faults ex_left ex_right 7 9 ex_device of
      (Inl e, d') \<Rightarrow> False
    | (Inr t, d') \<Rightarrow>
        \<forall>i < num_rows ex_left * num_rows ex_right.
          row d' t i = row ex_device ex_left (i div num_rows ex_right) @
                       row ex_device ex_right (i mod num_rows ex_right))"
proof -
  have h: "valid_table ex_device ex_left" "valid_table ex_device ex_right"
    "columns ex_left \<noteq> []" "columns ex_right \<noteq> []"
    "0 < num_rows ex_left" "0 < num_rows ex_right"
    by (simp_all add: valid_table_def valid_column_def ex_device_def ex_left_def ex_right_def)
  from cross_join_row_order[OF h, of 7 9] h show ?thesis by blast
qed

text \<open>
  Claim C2. For non-empty tables \<open>L\<close> (\<open>m\<close> rows, \<open>p\<close> columns) and \<open>R\<close> (\<open>n\<close> rows, \<open>q\<close>
  columns) the result has exactly \<open>m * n\<close> rows and \<open>p + q\<close> columns; its first \<open>p\<close> columns
  have the element types of \<open>L\<close>'s columns in order and its last \<open>q\<close> those of \<open>R\<close>'s. Every
  column of the result holds \<open>m * n\<close> cells.
\<close>

theorem cross_join_shape_types:
  fixes L R :: "'t table_view" and d :: "('t, 'a) device"
  assumes "valid_table d L" and "valid_table d R"
    and "1 \<le> num_columns L" and "1 \<le> num_columns R"
    and "1 \<le> num_rows L" and "1 \<le> num_rows R"
  shows "case detail_cross_join no_faults L R m s d of
           (Inl e, d') \<Rightarrow> False
         | (Inr t, d') \<Rightarrow>
             num_rows t = num_rows L * num_rows R \<and>
             num_columns t = num_columns L + num_columns R \<and>
             map type_tag (take (num_columns L) (columns t)) = map type_tag (columns L) \<and>
             map type_tag (drop (num_columns L) (columns t)) = map type_tag (columns R) \<and>
             valid_table d' t"
proof -
  have c: "columns L \<noteq> []" "columns R \<noteq> []"
    using assms(3,4) by (auto simp: num_columns_def)
  from cross_join_shape[OF assms(1,2) c, of m s] obtain t d' where
    res: "detail_cross_join no_faults L R m s d = (Inr t, d')" and "valid_table d' t"
    and "num_rows t = num_rows L * num_rows R"
    and "length (columns t) = length (columns L) + length (columns R)"
    and ty: "map type_tag (columns t) = map type_tag (columns L) @ map type_tag (columns R)"
    by blast
  moreover have "map type_tag (take (length (columns L)) (columns t)) = map type_tag (columns L)"
    using arg_cong[OF ty, of "take (length (columns L))"] by (simp add: take_map)
  moreover have "map type_tag (drop (length (columns L)) (columns t)) = map type_tag (columns R)"
    using arg_cong[OF ty, of "drop (length (columns L))"] by (simp add: drop_map)
  ultimately show ?thesis by (simp add: num_columns_def)
qed

theorem cross_join_shape_types_witness:
  "valid_table ex_device ex_left \<and> valid_table ex_device ex_right \<and>
   1 \<le> num_columns ex_left \<and> 1 \<le> num_columns ex_right \<and>
   1 \<le> num_rows ex_left \<and> 1 \<le> num_rows ex_right \<and>
   (case detail_cross_join no_faults ex_left ex_right 7 9 ex_device of
      (Inl e, d') \<Rightarrow> False
    | (Inr t, d') \<Rightarrow>
        num_rows t = num_rows ex_left * num_rows ex_right \<and>
        num_columns t = num_columns ex_left + num_columns ex_right \<and>
        map type_tag (take (num_columns ex_left) (columns t)) = map type_tag (columns ex_left) \<and>
        map type_tag (drop (num_columns ex_left) (columns t)) = map type_tag (columns ex_right) \<and>
        valid_table d' t)"
proof -
  have h: "valid_table ex_device ex_left" "valid_table ex_device ex_right"
    "1 \<le> num_columns ex_left" "1 \<le> num_columns ex_right"
    "1 \<le> num_rows ex_left" "1 \<le> num_rows ex_right"
    by (simp_all add: valid_table_def valid_column_def num_columns_def
        ex_device_def ex_left_def ex_right_def)
  from cross_join_shape_types[OF h, of 7 9] h show ?thesis by blast
qed

section \<open>Degenerate inputs\<close>

text \<open>
  Claim C3. When the left or the right table has no columns, whatever the row counts, the
  join fails with the \<^verbatim>\<open>cudf::logic_error\<close> of the argument check, under every fault
  schedule, and the device is left as it was: no call has been issued and nothing has been
  allocated.
\<close>

theorem cross_join_zero_columns:
  assumes "num_columns L = 0 \<or> num_columns R = 0"
  shows "detail_cross_join \<phi> L R m s d =
           (Inl (logic_error (if num_columns L = 0 then ''Left table is empty''
                              else ''Right table is empty'')), d)"
  using assms by (auto simp: detail_cross_join_def)

theorem cross_join_zero_columns_witness:
  "(num_columns (ex_left\<lparr>columns := []\<rparr>) = 0 \<or> num_columns ex_right = 0) \<and>
   detail_cross_join no_faults (ex_left\<lparr>columns := []\<rparr>) ex_right 7 9 ex_device =
     (Inl (logic_error ''Left table is empty''), ex_device)"
proof -
  have h: "num_columns (ex_left\<lparr>columns := []\<rparr>) = 0 \<or> num_columns ex_right = 0"
    by (simp add: num_columns_def)
  from cross_join_zero_columns[OF h, of no_faults 7 9 ex_device] h show ?thesis
    by (simp add: num_columns_def)
qed

text \<open>
  Claim C4. When both tables have at least one column and one of them has no rows, the
  join returns a table with no rows and \<open>p + q\<close> columns of the inputs' element types,
  each with a zero-length buffer. The calls issued are the two \<^verbatim>\<open>empty_like\<close> calls and the
  table constructor: neither \<^verbatim>\<open>detail::repeat\<close> nor \<^verbatim>\<open>cudf::tile\<close> is invoked.
\<close>

theorem cross_join_zero_rows:
  fixes L R :: "'t table_view" and d :: "('t, 'a) device"
  assumes "1 \<le> num_columns L" and "1 \<le> num_columns R"
    and "num_rows L = 0 \<or> num_rows R = 0"
  shows "case detail_cross_join no_faults L R m s d of
           (Inl e, d') \<Rightarrow> False
         | (Inr t, d') \<Rightarrow>
             num_rows t = 0 \<and>
             num_columns t = num_columns L + num_columns R \<and>
             map type_tag (columns t) = map type_tag (columns L) @ map type_tag (columns R) \<and>
             (\<forall>c \<in> set (columns t). row_count c = 0 \<and> mem d' (buffer c) = Some []) \<and>
             issued d d' = [EmptyLike L, EmptyLike R, MakeTable (columns t)]"
proof -
  have c: "columns L \<noteq> []" "columns R \<noteq> []"
    using assms(1,2) by (auto simp: num_columns_def)
  from cross_join_empty[OF c assms(3), of m s d] obtain t d' where
    res: "detail_cross_join no_faults L R m s d = (Inr t, d')"
    and len: "length (columns t) = length (columns L) + length (columns R)"
    and nr: "num_rows t = 0"
    and lg: "log d' = log d @ [EmptyLike L, EmptyLike R, MakeTable (columns t)]"
    and left: "\<And>j. j < length (columns L) \<Longrightarrow>
               columns t ! j = (columns L ! j)\<lparr>row_count := 0, buffer := brk d + j\<rparr> \<and>
               mem d' (brk d + j) = Some []"
    and right: "\<And>j. j < length (columns R) \<Longrightarrow>
               columns t ! (length (columns L) + j) =
                 (columns R ! j)\<lparr>row_count := 0, buffer := brk d + length (columns L) + j\<rparr> \<and>
               mem d' (brk d + length (columns L) + j) = Some []"
    by blast
  have col: "row_count (columns t ! k) = 0 \<and> mem d' (buffer (columns t ! k)) = Some [] \<and>
       type_tag (columns t ! k) = type_tag ((columns L @ columns R) ! k)"
    if k: "k < length (columns t)" for k
  proof (cases "k < length (columns L)")
    case True
    with left[of k] show ?thesis by (simp add: nth_append)
  next
    case False
    with k len have "k - length (columns L) < length (columns R)" by simp
    from right[OF this] False show ?thesis by (simp add: nth_append)
  qed
  have ty: "map type_tag (columns t) = map type_tag (columns L) @ map type_tag (columns R)"
    using col len by (intro nth_equalityI) (simp_all flip: map_append)
  have all: "\<forall>c \<in> set (columns t). row_count c = 0 \<and> mem d' (buffer c) = Some []"
    using col by (auto simp: in_set_conv_nth)
  from res nr len ty all lg show ?thesis by (simp add: num_columns_def issued_def)
qed



theorem cross_join_zero_rows_witness:
  "1 \<le> num_columns ex_empty \<and> 1 \<le> num_columns ex_right \<and>
   (num_rows ex_empty = 0 \<or> num_rows ex_right = 0) \<and>
   (case detail_cross_join no_faults ex_empty ex_right 7 9 ex_device of
      (Inl e, d') \<Rightarrow> False
    | (Inr t, d') \<Rightarrow>
        num_rows t = 0 \<and>
        num_columns t = num_columns ex_empty + num_columns ex_right \<and>
        map type_tag (columns t) =
          map type_tag (columns ex_empty) @ map type_tag (columns ex_right) \<and>
        (\<forall>c \<in> set (columns t). row_count c = 0 \<and> mem d' (buffer c) = Some []) \<and>
        issued ex_device d' =
          [EmptyLike ex_empty, EmptyLike ex_right, MakeTable (columns t)])"
proof -
  have h: "1 \<le> num_columns ex_empty" "1 \<le> num_columns ex_right"
    "num_rows ex_empty = 0 \<or> num_rows ex_right = 0"
    by (simp_all add: num_columns_def ex_empty_def ex_right_def)
  from cross_join_zero_rows[OF h, where m=7 and s=9 and d=ex_device] h show ?thesis by blast
qed

section \<open>Algebraic laws\<close>

text \<open>
  Claim C7. For a table \<open>L\<close> with \<open>m\<close> rows and a table \<open>R\<close> with exactly one row, each with
  at least one column, the result has exactly \<open>m\<close> rows, and row \<open>i\<close> of the result is row
  \<open>i\<close> of \<open>L\<close>, unchanged, followed by the single row of \<open>R\<close>.
\<close>

theorem cross_join_single_row:
  fixes L R :: "'t table_view" and d :: "('t, 'a) device"
  assumes "valid_table d L" and "valid_table d R"
    and "1 \<le> num_columns L" and "1 \<le> num_columns R"
    and "num_rows R = 1"
  shows "case detail_cross_join no_faults L R m s d of
           (Inl e, d') \<Rightarrow> False
         | (Inr t, d') \<Rightarrow>
             num_rows t = num_rows L \<and> valid_table d' t \<and>
             (\<forall>i < num_rows L. row d' t i = row d L i @ row d R 0)"
proof -
  have c: "columns L \<noteq> []" "columns R \<noteq> []"
    using assms(3,4) by (auto simp: num_columns_def)
  from cross_join_shape[OF assms(1,2) c, of m s] obtain t d' where
    res: "detail_cross_join no_faults L R m s d = (Inr t, d')" and v: "valid_table d' t"
    and nr: "num_rows t = num_rows L * num_rows R"
    by blast
  have "row d' t i = row d L i @ row d R 0" if i: "i < num_rows L" for i
  proof -
    from i assms(5) have r: "0 < num_rows L" "0 < num_rows R" by simp_all
    from cross_join_rows[OF assms(1,2) c r, of m s] res i assms(5)
    show ?thesis by auto
  qed
  with res v nr assms(5) show ?thesis by simp
qed

theorem cross_join_single_row_witness:
  "valid_table ex_device ex_left \<and> valid_table ex_device ex_single \<and>
   1 \<le> num_columns ex_left \<and> 1 \<le> num_columns ex_single \<and> num_rows ex_single = 1 \<and>
   (case detail_cross_join no_faults ex_left ex_single 7 9 ex_device of
      (Inl e, d') \<Rightarrow> False
    | (Inr t, d') \<Rightarrow>
        num_rows t = num_rows ex_left \<and> valid_table d' t \<and>
        (\<forall>i < num_rows ex_left. row d' t i = row ex_device ex_left i @ row ex_device ex_single 0))"
proof -
  have h: "valid_table ex_device ex_left" "valid_table ex_device ex_single"
    "1 \<le> num_columns ex_left" "1 \<le> num_columns ex_single" "num_rows ex_single = 1"
    by (simp_all add: valid_table_def valid_column_def num_columns_def
        ex_device_def ex_left_def ex_single_def)
  from cross_join_single_row[OF h, where m=7 and s=9] h show ?thesis by blast
qed

text \<open>
  Claim C8. For tables \<open>A\<close>, \<open>B\<close>, \<open>C\<close>, each with at least one column, both nestings of
  the join succeed and give a table with \<open>rows A * rows B * rows C\<close> rows and
  \<open>cols A + cols B + cols C\<close> columns. The table is valid on the resulting device: each of
  its columns holds that many cells; and its columns carry the element types of \<open>A\<close>'s,
  \<open>B\<close>'s and \<open>C\<close>'s columns, in this order.
\<close>

theorem cross_join_nested_shape:
  fixes A B C :: "'t table_view" and d :: "('t, 'a) device"
  assumes "valid_table d A" and "valid_table d B" and "valid_table d C"
    and "1 \<le> num_columns A" and "1 \<le> num_columns B" and "1 \<le> num_columns C"
  shows "(case detail_cross_join no_faults A B m s d of
            (Inl e, d1) \<Rightarrow> False
          | (Inr ab, d1) \<Rightarrow>
              (case detail_cross_join no_faults ab C m s d1 of
                 (Inl e, d2) \<Rightarrow> False
               | (Inr t, d2) \<Rightarrow>
                   valid_table d2 t \<and>
                   num_rows t = num_rows A * num_rows B * num_rows C \<and>
                   num_columns t = num_columns A + num_columns B + num_columns C \<and>
                   map type_tag (columns t) =
                     map type_tag (columns A) @ map type_tag (columns B) @ map type_tag (columns C))) \<and>
         (case detail_cross_join no_faults B C m s d of
            (Inl e, d1) \<Rightarrow> False
          | (Inr bc, d1) \<Rightarrow>
              (case detail_cross_join no_faults A bc m s d1 of
                 (Inl e, d2) \<Rightarrow> False
               | (Inr t, d2) \<Rightarrow>
                   valid_table d2 t \<and>
                   num_rows t = num_rows A * num_rows B * num_rows C \<and>
                   num_columns t = num_columns A + num_columns B + num_columns C \<and>
                   map type_tag (columns t) =
                     map type_tag (columns A) @ map type_tag (columns B) @ map type_tag (columns C)))"
proof -
  have c: "columns A \<noteq> []" "columns B \<noteq> []" "columns C \<noteq> []"
    using assms(4,5,6) by (auto simp: num_columns_def)
  from cross_join_shape[OF assms(1,2) c(1,2), of m s] obtain ab d1 where
    ab: "detail_cross_join no_faults A B m s d = (Inr ab, d1)" "valid_table d1 ab"
      "num_rows ab = num_rows A * num_rows B"
      "length (columns ab) = length (columns A) + length (columns B)"
      "brk d \<le> brk d1" "\<And>a. a < brk d \<Longrightarrow> mem d1 a = mem d a"
      "map type_tag (columns ab) = map type_tag (columns A) @ map type_tag (columns B)"
    by blast
  have vC: "valid_table d1 C"
    using valid_table_frame[OF assms(3) ab(5)] ab(6) by simp
  have nab: "columns ab \<noteq> []" using ab(4) c by auto
  from cross_join_shape[OF ab(2) vC nab c(3), of m s] obtain t d2 where
    t: "detail_cross_join no_faults ab C m s d1 = (Inr t, d2)"
      "valid_table d2 t"
      "num_rows t = num_rows ab * num_rows C"
      "length (columns t) = length (columns ab) + length (columns C)"
      "map type_tag (columns t) = map type_tag (columns ab) @ map type_tag (columns C)"
    by blast
  from cross_join_shape[OF assms(2,3) c(2,3), of m s] obtain bc e1 where
    bc: "detail_cross_join no_faults B C m s d = (Inr bc, e1)" "valid_table e1 bc"
      "num_rows bc = num_rows B * num_rows C"
      "length (columns bc) = length (columns B) + length (columns C)"
      "brk d \<le> brk e1" "\<And>a. a < brk d \<Longrightarrow> mem e1 a = mem d a"
      "map type_tag (columns bc) = map type_tag (columns B) @ map type_tag (columns C)"
    by blast
  have vA: "valid_table e1 A"
    using valid_table_frame[OF assms(1) bc(5)] bc(6) by simp
  have nbc: "columns bc \<noteq> []" using bc(4) c by auto
  from cross_join_shape[OF vA bc(2) c(1) nbc, of m s] obtain u e2 where
    u: "detail_cross_join no_faults A bc m s e1 = (Inr u, e2)"
      "valid_table e2 u"
      "num_rows u = num_rows A * num_rows bc"
      "length (columns u) = length (columns A) + length (columns bc)"
      "map type_tag (columns u) = map type_tag (columns A) @ map type_tag (columns bc)"
    by blast
  have left: "case detail_cross_join no_faults A B m s d of
            (Inl e, d1) \<Rightarrow> False
          | (Inr ab, d1) \<Rightarrow>
              (case detail_cross_join no_faults ab C m s d1 of
                 (Inl e, d2) \<Rightarrow> False
               | (Inr t, d2) \<Rightarrow>
                   valid_table d2 t \<and>
                   num_rows t = num_rows A * num_rows B * num_rows C \<and>
                   num_columns t = num_columns A + num_columns B + num_columns C \<and>
                   map type_tag (columns t) =
                     map type_tag (columns A) @ map type_tag (columns B) @ map type_tag (columns C))"
    using ab(1,3,4,7) t by (simp add: num_columns_def)
  have right: "case detail_cross_join no_faults B C m s d of
            (Inl e, d1) \<Rightarrow> False
          | (Inr bc, d1) \<Rightarrow>
              (case detail_cross_join no_faults A bc m s d1 of
                 (Inl e, d2) \<Rightarrow> False
               | (Inr t, d2) \<Rightarrow>
                   valid_table d2 t \<and>
                   num_rows t = num_rows A * num_rows B * num_rows C \<and>
                   num_columns t = num_columns A + num_columns B + num_columns C \<and>
                   map type_tag (columns t) =
                     map type_tag (columns A) @ map type_tag (columns B) @ map type_tag (columns C))"
    using bc(1,3,4,7) u by (simp add: num_columns_def mult.assoc)
  from left right show ?thesis by (rule conjI)
qed

theorem cross_join_nested_shape_witness:
  "valid_table ex_device ex_left \<and> valid_table ex_device ex_right \<and>
   valid_table ex_device ex_single \<and>
   1 \<le> num_columns ex_left \<and> 1 \<le> num_columns ex_right \<and> 1 \<le> num_columns ex_single \<and>
   (case detail_cross_join no_faults ex_left ex_right 7 9 ex_device of
      (Inl e, d1) \<Rightarrow> False
    | (Inr ab, d1) \<Rightarrow>
        (case detail_cross_join no_faults ab ex_single 7 9 d1 of
           (Inl e, d2) \<Rightarrow> False
         | (Inr t, d2) \<Rightarrow>
             valid_table d2 t \<and>
             num_rows t = num_rows ex_left * num_rows ex_right * num_rows ex_single \<and>
             num_columns t = num_columns ex_left + num_columns ex_right + num_columns ex_single \<and>
             map type_tag (columns t) =
               map type_tag (columns ex_left) @ map type_tag (columns ex_right) @ map type_tag (columns ex_single))) \<and>
   (case detail_cross_join no_faults ex_right ex_single 7 9 ex_device of
      (Inl e, d1) \<Rightarrow> False
    | (Inr bc, d1) \<Rightarrow>
        (case detail_cross_join no_faults ex_left bc 7 9 d1 of
           (Inl e, d2) \<Rightarrow> False
         | (Inr t, d2) \<Rightarrow>
             valid_table d2 t \<and>
             num_rows t = num_rows ex_left * num_rows ex_right * num_rows ex_single \<and>
             num_columns t = num_columns ex_left + num_columns ex_right + num_columns ex_single \<and>
             map type_tag (columns t) =
               map type_tag (columns ex_left) @ map type_tag (columns ex_right) @ map type_tag (columns ex_single)))"
proof -
  have h: "valid_table ex_device ex_left" "valid_table ex_device ex_right"
    "valid_table ex_device ex_single"
    "1 \<le> num_columns ex_left" "1 \<le> num_columns ex_right" "1 \<le> num_columns ex_single"
    by (simp_all add: valid_table_def valid_column_def num_columns_def
        ex_device_def ex_left_def ex_right_def ex_single_def)
  from cross_join_nested_shape[OF h, where m=7 and s=9] h
  show ?thesis by - (intro conjI, (assumption | erule conjunct1 | erule conjunct2)+)
qed

section \<open>Outcomes under a fault schedule\<close>

lemma materialize_outcome:
  assumes "materialize \<phi> c cols rows contents d = (r, d')"
  shows "\<And>t. r = Inr t \<Longrightarrow>
           \<phi> (log d @ [c]) = None \<and> materialize no_faults c cols rows contents d = (r, d')"
    and "\<And>e. r = Inl e \<Longrightarrow>
           \<phi> (log d @ [c]) = Some e \<or> \<phi> (log d @ [c]) = None \<and> contents = None"
    and "\<And>t bufs. r = Inr t \<Longrightarrow> contents = Some bufs \<Longrightarrow> length bufs = length cols \<Longrightarrow>
           buffer ` set (columns t) = {brk d ..< brk d'}"
proof -
  show "\<phi> (log d @ [c]) = None \<and> materialize no_faults c cols rows contents d = (r, d')"
    if "r = Inr t" for t
    using assms that
    by (auto simp: materialize_def no_faults_def Let_def split: option.splits)
  show "\<phi> (log d @ [c]) = Some e \<or> \<phi> (log d @ [c]) = None \<and> contents = None"
    if "r = Inl e" for e
    using assms that
    by (auto simp: materialize_def Let_def alloc_buffers_eq split: option.splits)
  show "buffer ` set (columns t) = {brk d ..< brk d'}"
    if "r = Inr t" "contents = Some bufs" "length bufs = length cols" for t bufs
  proof -
    from assms that have t: "columns t = map2 (\<lambda>c a. c\<lparr>buffer := a\<rparr>) cols [brk d ..< brk d + length cols]"
      and b: "brk d' = brk d + length cols"
      by (auto simp: materialize_def Let_def alloc_buffers_eq split: option.splits)
    have "map buffer (columns t) = [brk d ..< brk d + length cols]"
      unfolding t by (intro nth_equalityI) simp_all
    then have "set (map buffer (columns t)) = {brk d ..< brk d + length cols}"
      by simp
    with b show ?thesis by simp
  qed
qed

lemma read_buffers_length: "read_buffers d cs = Some bufs \<Longrightarrow> length bufs = length cs"
  using those_Some_nth[of "map (\<lambda>c. mem d (buffer c)) cs" bufs] by (simp add: read_buffers_def)

lemma empty_like_frame:
  assumes "empty_like \<phi> input d = (r, d')"
  shows "log d' = log d @ [EmptyLike input]" and "brk d \<le> brk d'"
    and "\<And>a. a < brk d \<Longrightarrow> mem d' a = mem d a"
    and "\<And>e. r = Inl e \<Longrightarrow> mem d' = mem d \<and> brk d' = brk d"
    and "\<And>t x. r = Inr t \<Longrightarrow> x \<in> set (columns t) \<Longrightarrow> brk d \<le> buffer x \<and> buffer x < brk d'"
    and "\<And>t. r = Inr t \<Longrightarrow> \<phi> (log d @ [EmptyLike input]) = None \<and>
                              empty_like no_faults input d = (r, d')"
    and "\<And>e. r = Inl e \<Longrightarrow> \<phi> (log d @ [EmptyLike input]) = Some e"
    and "\<And>t. r = Inr t \<Longrightarrow> buffer ` set (columns t) = {brk d ..< brk d'}"
  using materialize_frame[OF assms[unfolded empty_like_def]]
    materialize_outcome[OF assms[unfolded empty_like_def]]
  by (simp_all add: empty_like_def)

lemma detail_repeat_frame:
  assumes "detail_repeat \<phi> input count m s d = (r, d')"
  shows "log d' = log d @ [Repeat input count m s]" and "brk d \<le> brk d'"
    and "\<And>a. a < brk d \<Longrightarrow> mem d' a = mem d a"
    and "\<And>e. r = Inl e \<Longrightarrow> mem d' = mem d \<and> brk d' = brk d"
    and "\<And>t x. r = Inr t \<Longrightarrow> x \<in> set (columns t) \<Longrightarrow> brk d \<le> buffer x \<and> buffer x < brk d'"
    and "\<And>t. r = Inr t \<Longrightarrow> \<phi> (log d @ [Repeat input count m s]) = None \<and>
                              detail_repeat no_faults input count m s d = (r, d')"
    and "\<And>e. r = Inl e \<Longrightarrow> valid_table d input \<Longrightarrow> \<phi> (log d @ [Repeat input count m s]) = Some e"
    and "\<And>t. r = Inr t \<Longrightarrow> buffer ` set (columns t) = {brk d ..< brk d'}"
proof -
  note a = assms[unfolded detail_repeat_def]
  note f = materialize_frame[OF a] and o = materialize_outcome[OF a]
  show "log d' = log d @ [Repeat input count m s]" "brk d \<le> brk d'"
    "\<And>a. a < brk d \<Longrightarrow> mem d' a = mem d a"
    "\<And>e. r = Inl e \<Longrightarrow> mem d' = mem d \<and> brk d' = brk d"
    "\<And>t x. r = Inr t \<Longrightarrow> x \<in> set (columns t) \<Longrightarrow> brk d \<le> buffer x \<and> buffer x < brk d'"
    using f by blast+
  show "\<phi> (log d @ [Repeat input count m s]) = None \<and>
        detail_repeat no_faults input count m s d = (r, d')" if "r = Inr t" for t
    using o(1)[OF that] by (simp add: detail_repeat_def)
  show "\<phi> (log d @ [Repeat input count m s]) = Some e" if "r = Inl e" "valid_table d input" for e
    using o(2)[OF that(1)] valid_read[OF that(2)] by auto
  show "buffer ` set (columns t) = {brk d ..< brk d'}" if "r = Inr t" for t
  proof (cases "read_buffers d (columns input)")
    case None
    with a that show ?thesis by (simp add: materialize_def Let_def split: option.splits)
  next
    case (Some bufs)
    with o(3)[OF that, of "map (repeat_rows count) bufs"] read_buffers_length[OF Some]
    show ?thesis by simp
  qed
qed

lemma tile_frame:
  assumes "tile \<phi> input count m d = (r, d')"
  shows "log d' = log d @ [Tile input count m]" and "brk d \<le> brk d'"
    and "\<And>a. a < brk d \<Longrightarrow> mem d' a = mem d a"
    and "\<And>e. r = Inl e \<Longrightarrow> mem d' = mem d \<and> brk d' = brk d"
    and "\<And>t x. r = Inr t \<Longrightarrow> x \<in> set (columns t) \<Longrightarrow> brk d \<le> buffer x \<and> buffer x < brk d'"
    and "\<And>t. r = Inr t \<Longrightarrow> \<phi> (log d @ [Tile input count m]) = None \<and>
                              tile no_faults input count m d = (r, d')"
    and "\<And>e. r = Inl e \<Longrightarrow> valid_table d input \<Longrightarrow> \<phi> (log d @ [Tile input count m]) = Some e"
    and "\<And>t. r = Inr t \<Longrightarrow> buffer ` set (columns t) = {brk d ..< brk d'}"
proof -
  note a = assms[unfolded tile_def]
  note f = materialize_frame[OF a] and o = materialize_outcome[OF a]
  show "log d' = log d @ [Tile input count m]" "brk d \<le> brk d'"
    "\<And>a. a < brk d \<Longrightarrow> mem d' a = mem d a"
    "\<And>e. r = Inl e \<Longrightarrow> mem d' = mem d \<and> brk d' = brk d"
    "\<And>t x. r = Inr t \<Longrightarrow> x \<in> set (columns t) \<Longrightarrow> brk d \<le> buffer x \<and> buffer x < brk d'"
    using f by blast+
  show "\<phi> (log d @ [Tile input count m]) = None \<and>
        tile no_faults input count m d = (r, d')" if "r = Inr t" for t
    using o(1)[OF that] by (simp add: tile_def)
  show "\<phi> (log d @ [Tile input count m]) = Some e" if "r = Inl e" "valid_table d input" for e
    using o(2)[OF that(1)] valid_read[OF that(2)] by auto
  show "buffer ` set (columns t) = {brk d ..< brk d'}" if "r = Inr t" for t
  proof (cases "read_buffers d (columns input)")
    case None
    with a that show ?thesis by (simp add: materialize_def Let_def split: option.splits)
  next
    case (Some bufs)
    with o(3)[OF that, of "map (tile_rows count) bufs"] read_buffers_length[OF Some]
    show ?thesis by simp
  qed
qed

lemma numeric_scalar_outcome:
  assumes "numeric_scalar \<phi> v d = (r, d')"
  shows "\<And>w. r = Inr w \<Longrightarrow> w = v \<and> \<phi> (log d @ [MakeScalar v]) = None \<and>
                              numeric_scalar no_faults v d = (r, d')"
    and "\<And>e. r = Inl e \<Longrightarrow> \<phi> (log d @ [MakeScalar v]) = Some e"
  using assms by (auto simp: numeric_scalar_def no_faults_def Let_def split: option.splits)

lemma make_table_outcome:
  assumes "make_table \<phi> cs d = (r, d')"
  shows "\<And>t. r = Inr t \<Longrightarrow> \<phi> (log d @ [MakeTable cs]) = None \<and>
                              make_table no_faults cs d = (r, d')"
    and "\<And>e. r = Inl e \<Longrightarrow> \<phi> (log d @ [MakeTable cs]) = Some e"
    and "\<And>e a. r = Inl e \<Longrightarrow> a \<in> buffer ` set cs \<Longrightarrow> mem d' a = None"
  using assms by (auto simp: make_table_def no_faults_def free_def Let_def split: option.splits)

lemma free_frame:
  "log (free cs d) = log d" "brk (free cs d) = brk d"
  "a \<notin> buffer ` set cs \<Longrightarrow> mem (free cs d) a = mem d a"
  "a \<in> buffer ` set cs \<Longrightarrow> mem (free cs d) a = None"
  by (simp_all add: free_def)

lemma issued_append: "log d' = log d @ cs \<Longrightarrow> issued d d' = cs"
  by (simp add: issued_def)

lemma cross_join_frame:
  assumes res: "detail_cross_join \<phi> L R m s d = (r, d')"
  shows "brk d \<le> brk d' \<and> (\<forall>a<brk d. mem d' a = mem d a) \<and>
         (\<forall>t x. r = Inr t \<longrightarrow> x \<in> set (columns t) \<longrightarrow> brk d \<le> buffer x) \<and>
         (\<exists>k cols. issued d d' =
            take k [MakeScalar (num_rows R), Repeat L (num_rows R) m s,
                    Tile R (num_rows L) m, MakeTable cols] \<or>
          issued d d' = take k [EmptyLike L, EmptyLike R, MakeTable cols])"
    (is "?F \<and> ?I")
proof -
  let ?I' = "\<lambda>cs. \<exists>k cols. cs =
            take k [MakeScalar (num_rows R), Repeat L (num_rows R) m s,
                    Tile R (num_rows L) m, MakeTable cols] \<or>
          cs = take k [EmptyLike L, EmptyLike R, MakeTable cols]"
  consider (zero) "num_columns L = 0 \<or> num_columns R = 0"
    | (empty) "num_columns L \<noteq> 0" "num_columns R \<noteq> 0" "num_rows L = 0 \<or> num_rows R = 0"
    | (general) "num_columns L \<noteq> 0" "num_columns R \<noteq> 0" "num_rows L \<noteq> 0" "num_rows R \<noteq> 0"
    by blast
  then show ?thesis
  proof cases
    case zero
    with res have "d' = d" "\<exists>e. r = Inl e"
      by (auto simp: detail_cross_join_def split: if_splits)
    moreover have "?I' []" by (intro exI[of _ 0]) simp
    ultimately show ?thesis by (auto simp: issued_def)
  next
    case empty
    obtain r1 d1 where s1: "empty_like \<phi> L d = (r1, d1)" by fastforce
    note f1 = empty_like_frame[OF s1]
    show ?thesis
    proof (cases r1)
      case (Inl e1)
      with res empty s1 have "r = Inl e1" "d' = d1"
        by (auto simp: detail_cross_join_def)
      moreover have "?I' [EmptyLike L]" by (intro exI[of _ 1]) simp
      ultimately show ?thesis using f1 by (auto simp: issued_append)
    next
      case (Inr el)
      obtain r2 d2 where s2: "empty_like \<phi> R d1 = (r2, d2)" by fastforce
      note f2 = empty_like_frame[OF s2]
      have el: "\<And>x. x \<in> set (columns el) \<Longrightarrow> brk d \<le> buffer x"
        using f1(5)[OF Inr] by blast
      show ?thesis
      proof (cases r2)
        case (Inl e2)
        with res empty s1 s2 Inr have r: "r = Inl e2" "d' = free (columns el) d2"
          by (auto simp: detail_cross_join_def release_def)
        have "?I' [EmptyLike L, EmptyLike R]" by (intro exI[of _ 2]) simp
        then have i: "?I' (issued d d')"
          using r f1(1) f2(1) by (simp add: issued_def free_frame)
        have "mem d' a = mem d a" if "a < brk d" for a
        proof -
          from that el have "a \<notin> buffer ` set (columns el)" by fastforce
          with r that f1(2,3) f2(3) show ?thesis by (simp add: free_frame)
        qed
        with r i f1(2) f2(2) show ?thesis by (simp add: free_frame)
      next
        case er: (Inr er)
        have er': "\<And>x. x \<in> set (columns er) \<Longrightarrow> brk d \<le> buffer x"
          using f2(5)[OF er] f1(2) by fastforce
        from res empty s1 s2 Inr er
        have s3: "make_table \<phi> (columns el @ columns er) d2 = (r, d')"
          by (auto simp: detail_cross_join_def release_def)
        note f3 = make_table_frame[OF s3]
        have "?I' [EmptyLike L, EmptyLike R, MakeTable (columns el @ columns er)]"
          by (intro exI[of _ 3] exI[of _ "columns el @ columns er"]) simp
        then have i: "?I' (issued d d')"
          using f1(1) f2(1) f3(1) by (simp add: issued_def)
        have m: "mem d' a = mem d a" if "a < brk d" for a
        proof -
          from that el er' have "a \<notin> buffer ` set (columns el @ columns er)" by fastforce
          with that f1(2,3) f2(3) f3(3) show ?thesis by simp
        qed
        have c: "brk d \<le> buffer x" if "r = Inr t" "x \<in> set (columns t)" for t x
          using f3(4)[OF that(1)] that(2) el er' by auto
        from i m c f1(2) f2(2) f3(2) show ?thesis by auto
      qed
    qed
  next
    case general
    obtain r1 d1 where s1: "numeric_scalar \<phi> (num_rows R) d = (r1, d1)" by fastforce
    note f1 = numeric_scalar_frame[OF s1]
    show ?thesis
    proof (cases r1)
      case (Inl e1)
      with res general s1 have "r = Inl e1" "d' = d1"
        by (auto simp: detail_cross_join_def)
      moreover have "?I' [MakeScalar (num_rows R)]" by (intro exI[of _ 1]) simp
      ultimately show ?thesis using f1 by (auto simp: issued_append)
    next
      case (Inr num_repeats)
      then have nr: "num_repeats = num_rows R"
        using s1 by (auto simp: numeric_scalar_def Let_def split: option.splits)
      obtain r2 d2 where s2: "detail_repeat \<phi> L (num_rows R) m s d1 = (r2, d2)" by fastforce
      note f2 = detail_repeat_frame[OF s2]
      show ?thesis
      proof (cases r2)
        case (Inl e2)
        with res general s1 s2 Inr nr have "r = Inl e2" "d' = d2"
          by (auto simp: detail_cross_join_def)
        moreover have "?I' [MakeScalar (num_rows R), Repeat L (num_rows R) m s]"
          by (intro exI[of _ 2]) simp
        ultimately show ?thesis using f1 f2 by (auto simp: issued_def)
      next
        case lr: (Inr left_repeated)
        have lr': "\<And>x. x \<in> set (columns left_repeated) \<Longrightarrow> brk d \<le> buffer x"
          using f2(5)[OF lr] f1(2) by fastforce
        obtain r3 d3 where s3: "tile \<phi> R (num_rows L) m d2 = (r3, d3)" by fastforce
        note f3 = tile_frame[OF s3]
        show ?thesis
        proof (cases r3)
          case (Inl e3)
          with res general s1 s2 s3 Inr nr lr
          have r: "r = Inl e3" "d' = free (columns left_repeated) d3"
            by (auto simp: detail_cross_join_def release_def)
          have "?I' [MakeScalar (num_rows R), Repeat L (num_rows R) m s, Tile R (num_rows L) m]"
            by (intro exI[of _ 3]) simp
          then have i: "?I' (issued d d')"
            using r f1(1) f2(1) f3(1) by (simp add: issued_def free_frame)
          have "mem d' a = mem d a" if "a < brk d" for a
          proof -
            from that lr' have "a \<notin> buffer ` set (columns left_repeated)" by fastforce
            with r that f1(2,3) f2(2,3) f3(3) show ?thesis by (simp add: free_frame)
          qed
          with r i f1(2) f2(2) f3(2) show ?thesis by (simp add: free_frame)
        next
          case rt: (Inr right_tiled)
          have rt': "\<And>x. x \<in> set (columns right_tiled) \<Longrightarrow> brk d \<le> buffer x"
            using f3(5)[OF rt] f1(2) f2(2) by fastforce
          from res general s1 s2 s3 Inr nr lr rt
          have s4: "make_table \<phi> (columns left_repeated @ columns right_tiled) d3 = (r, d')"
            by (auto simp: detail_cross_join_def release_def)
          note f4 = make_table_frame[OF s4]
          have "?I' [MakeScalar (num_rows R), Repeat L (num_rows R) m s, Tile R (num_rows L) m,
                     MakeTable (columns left_repeated @ columns right_tiled)]"
            by (intro exI[of _ 4] exI[of _ "columns left_repeated @ columns right_tiled"]) simp
          then have i: "?I' (issued d d')"
            using f1(1) f2(1) f3(1) f4(1) by (simp add: issued_def)
          have m: "mem d' a = mem d a" if "a < brk d" for a
          proof -
            from that lr' rt'
            have "a \<notin> buffer ` set (columns left_repeated @ columns right_tiled)" by fastforce
            with that f1(2,3) f2(2,3) f3(3) f4(3) show ?thesis by simp
          qed
          have c: "brk d \<le> buffer x" if "r = Inr t" "x \<in> set (columns t)" for t x
            using f4(4)[OF that(1)] that(2) lr' rt' by auto
          from i m c f1(2) f2(2) f3(2) f4(2) show ?thesis by auto
        qed
      qed
    qed
  qed
qed


lemma cross_join_outcome:
  assumes res: "detail_cross_join \<phi> L R m s d = (r, d')"
  shows "(\<forall>e. r = Inl e \<longrightarrow> (\<forall>a. brk d \<le> a \<and> a < brk d' \<longrightarrow> mem d' a = None)) \<and>
         (\<forall>t. r = Inr t \<longrightarrow> raised \<phi> (log d) (issued d d') = [] \<and>
                            detail_cross_join no_faults L R m s d = (r, d')) \<and>
         (valid_table d L \<longrightarrow> valid_table d R \<longrightarrow>
            (\<forall>e. r = Inl e \<longrightarrow> num_columns L \<noteq> 0 \<longrightarrow> num_columns R \<noteq> 0 \<longrightarrow>
                 raised \<phi> (log d) (issued d d') = [e] \<and> \<phi> (log d') = Some e))"
proof -
  consider (zero) "num_columns L = 0 \<or> num_columns R = 0"
    | (empty) "num_columns L \<noteq> 0" "num_columns R \<noteq> 0" "num_rows L = 0 \<or> num_rows R = 0"
    | (general) "num_columns L \<noteq> 0" "num_columns R \<noteq> 0" "num_rows L \<noteq> 0" "num_rows R \<noteq> 0"
    by blast
  then show ?thesis
  proof cases
    case zero
    with res have "d' = d" "\<exists>e. r = Inl e"
      by (auto simp: detail_cross_join_def split: if_splits)
    with zero show ?thesis by auto
  next
    case empty
    obtain r1 d1 where s1: "empty_like \<phi> L d = (r1, d1)" by fastforce
    note f1 = empty_like_frame[OF s1]
    show ?thesis
    proof (cases r1)
      case (Inl e1)
      with res empty s1 have r: "r = Inl e1" "d' = d1"
        by (auto simp: detail_cross_join_def)
      have "raised \<phi> (log d) (issued d d') = [e1] \<and> \<phi> (log d') = Some e1"
        using r f1(1) f1(7)[OF Inl] by (simp add: issued_def)
      with r f1(4)[OF Inl] show ?thesis by auto
    next
      case (Inr el)
      obtain r2 d2 where s2: "empty_like \<phi> R d1 = (r2, d2)" by fastforce
      note f2 = empty_like_frame[OF s2]
      note n1 = f1(6)[OF Inr] and o1 = f1(8)[OF Inr]
      show ?thesis
      proof (cases r2)
        case (Inl e2)
        with res empty s1 s2 Inr have r: "r = Inl e2" "d' = free (columns el) d2"
          by (auto simp: detail_cross_join_def release_def)
        have "raised \<phi> (log d) (issued d d') = [e2] \<and> \<phi> (log d') = Some e2"
          using r f1(1) f2(1) n1 f2(7)[OF Inl] by (simp add: issued_def free_frame)
        moreover have "mem d' a = None" if "brk d \<le> a" "a < brk d'" for a
        proof -
          from that r f2(4)[OF Inl] o1 have "a \<in> buffer ` set (columns el)"
            by (simp add: free_frame)
          with r show ?thesis by (simp add: free_frame)
        qed
        ultimately show ?thesis using r by simp
      next
        case er: (Inr er)
        note n2 = f2(6)[OF er] and o2 = f2(8)[OF er]
        from res empty s1 s2 Inr er
        have s3: "make_table \<phi> (columns el @ columns er) d2 = (r, d')"
          by (auto simp: detail_cross_join_def release_def)
        note f3 = make_table_frame[OF s3] and o3 = make_table_outcome[OF s3]
        have lg: "issued d d' = [EmptyLike L, EmptyLike R, MakeTable (columns el @ columns er)]"
          using f1(1) f2(1) f3(1) by (simp add: issued_def)
        have "buffer ` set (columns el @ columns er) = {brk d ..< brk d1} \<union> {brk d1 ..< brk d2}"
          using o1 o2 by (simp add: image_Un)
        also have "\<dots> = {brk d ..< brk d2}"
          using f1(2) f2(2) by (rule ivl_disj_un_two)
        finally have own: "buffer ` set (columns el @ columns er) = {brk d ..< brk d'}"
          using f3(2) by simp
        have a: "mem d' a = None" if "r = Inl e" "brk d \<le> a" "a < brk d'" for e a
          using o3(3)[OF that(1), of a] own that(2,3) by simp
        have b: "raised \<phi> (log d) (issued d d') = [e] \<and> \<phi> (log d') = Some e"
          if "r = Inl e" for e
          using lg n1 n2 o3(2)[OF that] f1(1) f2(1) f3(1) by simp
        have c: "raised \<phi> (log d) (issued d d') = [] \<and>
                 detail_cross_join no_faults L R m s d = (r, d')" if "r = Inr t" for t
          using lg n1 n2 o3(1)[OF that] f1(1) f2(1) empty Inr er
          by (simp add: detail_cross_join_def release_def)
        from a b c show ?thesis by blast
      qed
    qed
  next
    case general
    obtain r1 d1 where s1: "numeric_scalar \<phi> (num_rows R) d = (r1, d1)" by fastforce
    note f1 = numeric_scalar_frame[OF s1] and o1 = numeric_scalar_outcome[OF s1]
    show ?thesis
    proof (cases r1)
      case (Inl e1)
      with res general s1 have r: "r = Inl e1" "d' = d1"
        by (auto simp: detail_cross_join_def)
      have "raised \<phi> (log d) (issued d d') = [e1] \<and> \<phi> (log d') = Some e1"
        using r f1(1) o1(2)[OF Inl] by (simp add: issued_def)
      with r f1(2) show ?thesis by auto
    next
      case (Inr num_repeats)
      note n1 = o1(1)[OF Inr]
      obtain r2 d2 where s2: "detail_repeat \<phi> L (num_rows R) m s d1 = (r2, d2)" by fastforce
      note f2 = detail_repeat_frame[OF s2]
      have vL: "valid_table d1 L" if "valid_table d L"
        using valid_table_frame[OF that, of d1] f1 by simp
      show ?thesis
      proof (cases r2)
        case (Inl e2)
        with res general s1 s2 Inr n1 have r: "r = Inl e2" "d' = d2"
          by (auto simp: detail_cross_join_def)
        have "raised \<phi> (log d) (issued d d') = [e2] \<and> \<phi> (log d') = Some e2" if "valid_table d L"
          using r f1(1) f2(1) n1 f2(7)[OF Inl vL[OF that]] by (simp add: issued_def)
        with r f1(2) f2(4)[OF Inl] show ?thesis by auto
      next
        case lr: (Inr left_repeated)
        note n2 = f2(6)[OF lr] and o2 = f2(8)[OF lr]
        obtain r3 d3 where s3: "tile \<phi> R (num_rows L) m d2 = (r3, d3)" by fastforce
        note f3 = tile_frame[OF s3]
        have vR: "valid_table d2 R" if "valid_table d R"
          using valid_table_frame[OF that, of d2] f1 f2(2,3) by simp
        show ?thesis
        proof (cases r3)
          case (Inl e3)
          with res general s1 s2 s3 Inr n1 lr
          have r: "r = Inl e3" "d' = free (columns left_repeated) d3"
            by (auto simp: detail_cross_join_def release_def)
          have "raised \<phi> (log d) (issued d d') = [e3] \<and> \<phi> (log d') = Some e3" if "valid_table d R"
            using r f1(1) f2(1) f3(1) n1 n2 f3(7)[OF Inl vR[OF that]]
            by (simp add: issued_def free_frame)
          moreover have "mem d' a = None" if "brk d \<le> a" "a < brk d'" for a
          proof -
            from that r f3(4)[OF Inl] o2 f1(2) have "a \<in> buffer ` set (columns left_repeated)"
              by (simp add: free_frame)
            with r show ?thesis by (simp add: free_frame)
          qed
          ultimately show ?thesis using r by simp
        next
          case rt: (Inr right_tiled)
          note n3 = f3(6)[OF rt] and o3 = f3(8)[OF rt]
          from res general s1 s2 s3 Inr n1 lr rt
          have s4: "make_table \<phi> (columns left_repeated @ columns right_tiled) d3 = (r, d')"
            by (auto simp: detail_cross_join_def release_def)
          note f4 = make_table_frame[OF s4] and o4 = make_table_outcome[OF s4]
          have lg: "issued d d' = [MakeScalar (num_rows R), Repeat L (num_rows R) m s,
                      Tile R (num_rows L) m, MakeTable (columns left_repeated @ columns right_tiled)]"
            using f1(1) f2(1) f3(1) f4(1) by (simp add: issued_def)
          have "buffer ` set (columns left_repeated @ columns right_tiled) =
                  {brk d1 ..< brk d2} \<union> {brk d2 ..< brk d3}"
            using o2 o3 by (simp add: image_Un)
          also have "\<dots> = {brk d1 ..< brk d3}"
            using f2(2) f3(2) by (rule ivl_disj_un_two)
          finally have own: "buffer ` set (columns left_repeated @ columns right_tiled) =
                  {brk d ..< brk d'}"
            using f1(2) f4(2) by simp
          have a: "mem d' a = None" if "r = Inl e" "brk d \<le> a" "a < brk d'" for e a
            using o4(3)[OF that(1), of a] own that(2,3) by simp
          have b: "raised \<phi> (log d) (issued d d') = [e] \<and> \<phi> (log d') = Some e"
            if "r = Inl e" for e
            using lg n1 n2 n3 o4(2)[OF that] f1(1) f2(1) f3(1) f4(1) by simp
          have c: "raised \<phi> (log d) (issued d d') = [] \<and>
                   detail_cross_join no_faults L R m s d = (r, d')" if "r = Inr t" for t
            using lg n1 n2 n3 o4(1)[OF that] f1(1) f2(1) f3(1) general Inr lr rt
            by (simp add: detail_cross_join_def release_def)
          from a b c show ?thesis by blast
        qed
      qed
    qed
  qed
qed


section \<open>Streams and memory resources\<close>

text \<open>
  Claim C5, as amended. Of the calls that one call of \<^verbatim>\<open>detail::cross_join\<close> issues, the
  row repetition is handed the stream supplied by the caller; \<^verbatim>\<open>empty_like\<close> and the table
  constructor are handed no stream. Through \<^verbatim>\<open>cudf::cross_join\<close> no call is handed a
  stream other than the default stream \<open>0\<close>.
\<close>

theorem cross_join_streams:
  "(\<forall>c \<in> set (issued d (snd (detail_cross_join \<phi> L R m s d))).
      (case c of
         Repeat t k m' s' \<Rightarrow> s' = s
       | EmptyLike t \<Rightarrow> call_stream c = None
       | MakeTable cs \<Rightarrow> call_stream c = None
       | MakeScalar v \<Rightarrow> True
       | Tile t k m' \<Rightarrow> True)) \<and>
   (\<forall>c \<in> set (issued d (snd (cross_join \<phi> L R m d))).
      \<forall>s'. call_stream c = Some s' \<longrightarrow> s' = 0)"
proof -
  have a: "(case c of
         Repeat t k m' s' \<Rightarrow> s' = s
       | EmptyLike t \<Rightarrow> call_stream c = None
       | MakeTable cs \<Rightarrow> call_stream c = None
       | MakeScalar v \<Rightarrow> True
       | Tile t k m' \<Rightarrow> True) \<and> (\<forall>s'. call_stream c = Some s' \<longrightarrow> s' = s)"
    if c: "c \<in> set (issued d (snd (detail_cross_join \<phi> L R m s d)))" for c s
  proof -
    obtain r d' where res: "detail_cross_join \<phi> L R m s d = (r, d')" by fastforce
    from cross_join_frame[OF res] obtain k cols where
      "issued d d' = take k [MakeScalar (num_rows R), Repeat L (num_rows R) m s,
                             Tile R (num_rows L) m, MakeTable cols] \<or>
       issued d d' = take k [EmptyLike L, EmptyLike R, MakeTable cols]"
      by blast
    moreover from c res have "c \<in> set (issued d d')" by simp
    ultimately have "c \<in> set [MakeScalar (num_rows R), Repeat L (num_rows R) m s,
                              Tile R (num_rows L) m, MakeTable cols] \<or>
                     c \<in> set [EmptyLike L, EmptyLike R, MakeTable cols]"
      by (metis in_set_takeD)
    then show ?thesis by auto
  qed
  show ?thesis using a a[where s=0] by (simp add: cross_join_def)
qed

theorem cross_join_streams_witness:
  "Repeat ex_left 3 7 9 \<in> set (issued ex_device
       (snd (detail_cross_join no_faults ex_left ex_right 7 9 ex_device))) \<and>
   call_stream (Repeat ex_left 3 7 9) = Some 9"
proof -
  have i: "Repeat ex_left 3 7 9 \<in> set (issued ex_device
       (snd (detail_cross_join no_faults ex_left ex_right 7 9 ex_device)))"
    by code_simp
  from cross_join_streams[of ex_device no_faults ex_left ex_right 7 9] i
  show ?thesis by auto
qed

theorem cross_join_streams_counterexample:
  "EmptyLike ex_empty \<in> set (issued ex_device
       (snd (detail_cross_join no_faults ex_empty ex_right 7 9 ex_device))) \<and>
   call_stream (EmptyLike ex_empty) \<noteq> Some 9"
  by code_simp

text \<open>
  Claim C6, as amended. Of the calls that one call of \<^verbatim>\<open>detail::cross_join\<close> issues, the
  two that produce the columns of the general path, row repetition and row tiling, are
  handed the memory resource supplied by the caller; \<^verbatim>\<open>empty_like\<close>, which produces the
  zero-row columns of the empty path, is handed no memory resource.
\<close>

theorem cross_join_memory_resource:
  "\<forall>c \<in> set (issued d (snd (detail_cross_join \<phi> L R m s d))).
      (case c of
         Repeat t k m' s' \<Rightarrow> m' = m
       | Tile t k m' \<Rightarrow> m' = m
       | EmptyLike t \<Rightarrow> call_mr c = None
       | MakeScalar v \<Rightarrow> True
       | MakeTable cs \<Rightarrow> True)"
proof
  fix c assume c: "c \<in> set (issued d (snd (detail_cross_join \<phi> L R m s d)))"
  obtain r d' where res: "detail_cross_join \<phi> L R m s d = (r, d')" by fastforce
  from cross_join_frame[OF res] obtain k cols where
    "issued d d' = take k [MakeScalar (num_rows R), Repeat L (num_rows R) m s,
                           Tile R (num_rows L) m, MakeTable cols] \<or>
     issued d d' = take k [EmptyLike L, EmptyLike R, MakeTable cols]"
    by blast
  moreover from c res have "c \<in> set (issued d d')" by simp
  ultimately have "c \<in> set [MakeScalar (num_rows R), Repeat L (num_rows R) m s,
                            Tile R (num_rows L) m, MakeTable cols] \<or>
                   c \<in> set [EmptyLike L, EmptyLike R, MakeTable cols]"
    by (metis in_set_takeD)
  then show "case c of
         Repeat t k m' s' \<Rightarrow> m' = m
       | Tile t k m' \<Rightarrow> m' = m
       | EmptyLike t \<Rightarrow> call_mr c = None
       | MakeScalar v \<Rightarrow> True
       | MakeTable cs \<Rightarrow> True" by auto
qed

theorem cross_join_memory_resource_witness:
  "Tile ex_right 2 7 \<in> set (issued ex_device
       (snd (detail_cross_join no_faults ex_left ex_right 7 9 ex_device))) \<and>
   call_mr (Tile ex_right 2 7) = Some 7"
proof -
  have i: "Tile ex_right 2 7 \<in> set (issued ex_device
       (snd (detail_cross_join no_faults ex_left ex_right 7 9 ex_device)))"
    by code_simp
  from cross_join_memory_resource[of ex_device no_faults ex_left ex_right 7 9] i
  show ?thesis by auto
qed

theorem cross_join_memory_resource_counterexample:
  "EmptyLike ex_right \<in> set (issued ex_device
       (snd (detail_cross_join no_faults ex_empty ex_right 7 9 ex_device))) \<and>
   call_mr (EmptyLike ex_right) \<noteq> Some 7"
  by code_simp


section \<open>Failure and frame\<close>

text \<open>
  Claim C9. On valid inputs and under every fault schedule, the join either returns a
  complete table (valid on the resulting device, with \<open>p + q\<close> columns and \<open>m * n\<close> rows),
  and then no callee has failed; or it fails, and then: unless it is the argument check
  that failed, exactly one callee has failed, that failure is the error returned, and it
  was the last call issued (nothing is retried or attempted afterwards); every buffer that
  existed before the call is as it was, and every buffer allocated during the call has
  been released again.
\<close>

theorem cross_join_atomic:
  fixes L R :: "'t table_view" and d :: "('t, 'a) device"
  assumes "valid_table d L" and "valid_table d R"
  shows "case detail_cross_join \<phi> L R m s d of
           (Inr t, d') \<Rightarrow>
             raised \<phi> (log d) (issued d d') = [] \<and>
             valid_table d' t \<and>
             num_columns t = num_columns L + num_columns R \<and>
             num_rows t = num_rows L * num_rows R
         | (Inl e, d') \<Rightarrow>
             (\<forall>a<brk d. mem d' a = mem d a) \<and>
             (\<forall>a. brk d \<le> a \<and> a < brk d' \<longrightarrow> mem d' a = None) \<and>
             (if num_columns L = 0 \<or> num_columns R = 0 then d' = d
              else raised \<phi> (log d) (issued d d') = [e] \<and> \<phi> (log d') = Some e)"
proof -
  obtain r d' where res: "detail_cross_join \<phi> L R m s d = (r, d')" by fastforce
  note f = cross_join_frame[OF res] and o = cross_join_outcome[OF res]
  show ?thesis
  proof (cases r)
    case (Inl e)
    have z: "d' = d" if "num_columns L = 0 \<or> num_columns R = 0"
      using res that by (auto simp: detail_cross_join_def split: if_splits)
    have n: "raised \<phi> (log d) (issued d d') = [e] \<and> \<phi> (log d') = Some e"
      if "\<not> (num_columns L = 0 \<or> num_columns R = 0)"
      using o assms Inl that by blast
    from f o Inl z n res show ?thesis by auto
  next
    case (Inr t)
    with o have nf: "detail_cross_join no_faults L R m s d = (Inr t, d')"
      and ra: "raised \<phi> (log d) (issued d d') = []" by auto
    have c: "columns L \<noteq> []" "columns R \<noteq> []"
      using res Inr by (auto simp: detail_cross_join_def num_columns_def split: if_splits)
    from cross_join_shape[OF assms c, of m s] nf
    have "valid_table d' t" "num_rows t = num_rows L * num_rows R"
      "length (columns t) = length (columns L) + length (columns R)"
      by auto
    with res Inr ra show ?thesis by (simp add: num_columns_def)
  qed
qed


theorem cross_join_atomic_witness:
  "valid_table ex_device ex_left \<and> valid_table ex_device ex_right \<and>
   fst (detail_cross_join ex_faults ex_left ex_right 7 9 ex_device) = Inl bad_alloc \<and>
   (case detail_cross_join ex_faults ex_left ex_right 7 9 ex_device of
      (Inr t, d') \<Rightarrow>
        raised ex_faults (log ex_device) (issued ex_device d') = [] \<and>
        valid_table d' t \<and>
        num_columns t = num_columns ex_left + num_columns ex_right \<and>
        num_rows t = num_rows ex_left * num_rows ex_right
    | (Inl e, d') \<Rightarrow>
        (\<forall>a<brk ex_device. mem d' a = mem ex_device a) \<and>
        (\<forall>a. brk ex_device \<le> a \<and> a < brk d' \<longrightarrow> mem d' a = None) \<and>
        (if num_columns ex_left = 0 \<or> num_columns ex_right = 0 then d' = ex_device
         else raised ex_faults (log ex_device) (issued ex_device d') = [e] \<and>
              ex_faults (log d') = Some e))"
proof -
  have h: "valid_table ex_device ex_left" "valid_table ex_device ex_right"
    by (simp_all add: valid_table_def valid_column_def ex_device_def ex_left_def ex_right_def)
  have e: "fst (detail_cross_join ex_faults ex_left ex_right 7 9 ex_device) = Inl bad_alloc"
    by code_simp
  from cross_join_atomic[OF h, of ex_faults 7 9] h e show ?thesis by blast
qed

text \<open>
  Claim C10. The join leaves its inputs as they were, whether it succeeds or fails: every
  buffer that existed before the call holds the same cells afterwards, so both input
  views are still valid and each of their rows reads as before; and a table that is
  returned is built from newly allocated buffers only. This holds for
  \<^verbatim>\<open>detail::cross_join\<close> and for \<^verbatim>\<open>cudf::cross_join\<close>.
\<close>

theorem cross_join_inputs_unchanged:
  fixes L R :: "'t table_view" and d :: "('t, 'a) device"
  assumes "valid_table d L" and "valid_table d R"
  shows "(case detail_cross_join \<phi> L R m s d of
            (r, d') \<Rightarrow>
              valid_table d' L \<and> valid_table d' R \<and>
              (\<forall>i. row d' L i = row d L i) \<and> (\<forall>i. row d' R i = row d R i) \<and>
              (\<forall>a<brk d. mem d' a = mem d a) \<and>
              (\<forall>t. r = Inr t \<longrightarrow> (\<forall>c \<in> set (columns t). brk d \<le> buffer c))) \<and>
         (case cross_join \<phi> L R m d of
            (r, d') \<Rightarrow>
              valid_table d' L \<and> valid_table d' R \<and>
              (\<forall>i. row d' L i = row d L i) \<and> (\<forall>i. row d' R i = row d R i) \<and>
              (\<forall>a<brk d. mem d' a = mem d a) \<and>
              (\<forall>t. r = Inr t \<longrightarrow> (\<forall>c \<in> set (columns t). brk d \<le> buffer c)))"
proof -
  have a: "valid_table d' L \<and> valid_table d' R \<and>
           (\<forall>i. row d' L i = row d L i) \<and> (\<forall>i. row d' R i = row d R i) \<and>
           (\<forall>a<brk d. mem d' a = mem d a) \<and>
           (\<forall>t. r = Inr t \<longrightarrow> (\<forall>c \<in> set (columns t). brk d \<le> buffer c))"
    if res: "detail_cross_join \<phi> L R m s d = (r, d')" for s r d'
  proof -
    from cross_join_frame[OF res] have b: "brk d \<le> brk d'"
      and f: "\<And>a. a < brk d \<Longrightarrow> mem d' a = mem d a"
      and n: "\<And>t x. r = Inr t \<Longrightarrow> x \<in> set (columns t) \<Longrightarrow> brk d \<le> buffer x"
      by blast+
    from valid_table_frame[OF assms(1) b f] valid_table_frame[OF assms(2) b f]
      row_frame[OF assms(1) f] row_frame[OF assms(2) f] f n
    show ?thesis by blast
  qed
  show ?thesis
    using a by (auto simp: cross_join_def split: prod.splits)
qed

theorem cross_join_inputs_unchanged_witness:
  "valid_table ex_device ex_left \<and> valid_table ex_device ex_right \<and>
   (case detail_cross_join no_faults ex_left ex_right 7 9 ex_device of
      (r, d') \<Rightarrow>
        valid_table d' ex_left \<and> valid_table d' ex_right \<and>
        (\<forall>i. row d' ex_left i = row ex_device ex_left i) \<and>
        (\<forall>i. row d' ex_right i = row ex_device ex_right i) \<and>
        (\<forall>a<brk ex_device. mem d' a = mem ex_device a) \<and>
        (\<forall>t. r = Inr t \<longrightarrow> (\<forall>c \<in> set (columns t). brk ex_device \<le> buffer c)))"
proof -
  have h: "valid_table ex_device ex_left" "valid_table ex_device ex_right"
    by (simp_all add: valid_table_def valid_column_def ex_device_def ex_left_def ex_right_def)
  from cross_join_inputs_unchanged[OF h, of no_faults 7 9, THEN conjunct1] h
  show ?thesis by - (intro conjI, assumption+)
qed


end
